theory Spec2Isabelle
  imports Main "HOL-Library.Sublist" "HOL-Library.AList"
begin

section \<open>JavaScript string primitives\<close>

text \<open>
  Strings are lists of 8-bit characters, so the model covers texts whose UTF-16 code units
  are below 256. Indices are \<open>int\<close>, because \<open>indexOf\<close> and \<open>lastIndexOf\<close> answer \<open>-1\<close> and
  the source compares and subtracts positions freely.
\<close>

definition clampIndex :: "string \<Rightarrow> int \<Rightarrow> nat" where
  "clampIndex s i = nat (max 0 (min i (int (length s))))"

text \<open>\<open>String.prototype.substring(a, b)\<close>: both ends clamped to the string, swapped when \<open>a > b\<close>.\<close>

definition substring :: "string \<Rightarrow> int \<Rightarrow> int \<Rightarrow> string" where
  "substring s a b =
     (let lo = min (clampIndex s a) (clampIndex s b);
          hi = max (clampIndex s a) (clampIndex s b)
      in take (hi - lo) (drop lo s))"

text \<open>\<open>substring(a)\<close> with the end omitted runs to the end of the string.\<close>

definition substringFrom :: "string \<Rightarrow> int \<Rightarrow> string" where
  "substringFrom s a = substring s a (int (length s))"

text \<open>\<open>String.prototype.slice(a, b)\<close>: a negative index counts from the end, no swapping.\<close>

definition sliceIndex :: "string \<Rightarrow> int \<Rightarrow> nat" where
  "sliceIndex s i =
     (if i < 0 then nat (max 0 (int (length s) + i)) else nat (min i (int (length s))))"

definition slice :: "string \<Rightarrow> int \<Rightarrow> int \<Rightarrow> string" where
  "slice s a b = take (sliceIndex s b - sliceIndex s a) (drop (sliceIndex s a) s)"

text \<open>\<open>indexOf(needle)\<close>: the first position where \<open>needle\<close> occurs, or \<open>-1\<close>.\<close>

fun indexOfFrom :: "string \<Rightarrow> string \<Rightarrow> nat \<Rightarrow> int" where
  "indexOfFrom needle [] k = (if needle = [] then int k else -1)"
| "indexOfFrom needle (c # cs) k =
     (if prefix needle (c # cs) then int k else indexOfFrom needle cs (Suc k))"

definition indexOf :: "string \<Rightarrow> string \<Rightarrow> int" where
  "indexOf s needle = indexOfFrom needle s 0"

definition includes_str :: "string \<Rightarrow> string \<Rightarrow> bool" where
  "includes_str s needle = (0 \<le> indexOf s needle)"

text \<open>
  \<open>lastIndexOf(needle, pos)\<close>: the last position \<open>k \<le> pos\<close> (with \<open>pos\<close> clamped to the
  string) at which \<open>needle\<close> occurs, or \<open>-1\<close>. With \<open>pos\<close> omitted the search starts at the
  end of the string.
\<close>

fun lastIndexDown :: "string \<Rightarrow> string \<Rightarrow> nat \<Rightarrow> int" where
  "lastIndexDown s needle 0 = (if prefix needle s then 0 else -1)"
| "lastIndexDown s needle (Suc p) =
     (if prefix needle (drop (Suc p) s) then int (Suc p) else lastIndexDown s needle p)"

definition lastIndexOf :: "string \<Rightarrow> string \<Rightarrow> int \<Rightarrow> int" where
  "lastIndexOf s needle pos = lastIndexDown s needle (clampIndex s pos)"

definition lastIndexOfEnd :: "string \<Rightarrow> string \<Rightarrow> int" where
  "lastIndexOfEnd s needle = lastIndexDown s needle (length s)"

definition paragraphBreak :: string where
  "paragraphBreak = [CHR 0x0A, CHR 0x0A]"

definition sentenceBreak :: string where
  "sentenceBreak = ''. ''"

section \<open>The chunk splitters\<close>

subsection \<open>\<open>LLMService._splitTextIntoChunks\<close> (src/services/llm-service.js)\<close>

text \<open>
  One iteration's end index: the window end, moved back to a paragraph break or past a
  sentence end when the window stops short of the text's end.
\<close>

definition chunkEndIndex :: "string \<Rightarrow> int \<Rightarrow> int \<Rightarrow> int" where
  "chunkEndIndex text chunkSize startIndex =
     (let endIndex = min (startIndex + chunkSize) (int (length text))
      in if endIndex < int (length text)
         then (let paragraphEnd = lastIndexOf text paragraphBreak endIndex
               in if paragraphEnd > startIndex then paragraphEnd
                  else (let sentenceEnd = lastIndexOf text sentenceBreak endIndex
                        in if sentenceEnd > startIndex then sentenceEnd + 1 else endIndex))
         else endIndex)"

text \<open>The \<open>while (startIndex < text.length)\<close> loop; \<open>None\<close> is a run that never leaves it.\<close>

partial_function (option) splitTextLoop ::
  "string \<Rightarrow> int \<Rightarrow> int \<Rightarrow> int \<Rightarrow> string list \<Rightarrow> string list option" where
  "splitTextLoop text chunkSize overlapSize startIndex chunks =
     (if startIndex < int (length text)
      then splitTextLoop text chunkSize overlapSize
             (max startIndex (chunkEndIndex text chunkSize startIndex - overlapSize))
             (chunks @ [substring text startIndex (chunkEndIndex text chunkSize startIndex)])
      else Some chunks)"

declare splitTextLoop.simps [code]

definition splitTextIntoChunks :: "string \<Rightarrow> int \<Rightarrow> int \<Rightarrow> string list option" where
  "splitTextIntoChunks text chunkSize overlapSize =
     splitTextLoop text chunkSize overlapSize 0 []"

subsection \<open>\<open>DocAnalyzer._splitIntoChunks\<close> (src/analyzers/doc-analyzer.js)\<close>

partial_function (option) positionLoop ::
  "string \<Rightarrow> int \<Rightarrow> int \<Rightarrow> int \<Rightarrow> string list \<Rightarrow> string list option" where
  "positionLoop document maxChunkSize overlapSize position chunks =
     (if position < int (length document)
      then (if min (position + maxChunkSize) (int (length document)) - overlapSize \<le> 0
               \<or> maxChunkSize \<le> overlapSize
            then Some (chunks @ [substring document position
                                   (min (position + maxChunkSize) (int (length document)))])
            else positionLoop document maxChunkSize overlapSize
                   (min (position + maxChunkSize) (int (length document)) - overlapSize)
                   (chunks @ [substring document position
                                (min (position + maxChunkSize) (int (length document)))]))
      else Some chunks)"

declare positionLoop.simps [code]

definition splitIntoChunks_docanalyzer :: "string \<Rightarrow> int \<Rightarrow> int \<Rightarrow> string list option" where
  "splitIntoChunks_docanalyzer document maxChunkSize overlapSize =
     (if int (length document) \<le> maxChunkSize then Some [document]
      else positionLoop document maxChunkSize overlapSize 0 [])"

subsection \<open>\<open>DocAnalyzer._splitIntoChunks\<close>, first definition of the class in part_001\<close>

text \<open>
  A candidate break is given up when it does not lie after the chunk start or lies more
  than \<open>maxChunkSize / 2\<close> before the window end. The source divides as a float; the
  comparison \<open>splitPos < endPos - maxChunkSize / 2\<close> is written here with both sides doubled.
\<close>

definition rejected :: "int \<Rightarrow> int \<Rightarrow> int \<Rightarrow> int \<Rightarrow> bool" where
  "rejected splitPos startPos endPos maxChunkSize =
     (splitPos \<le> startPos \<or> 2 * splitPos < 2 * endPos - maxChunkSize)"

definition chooseSplitPos :: "string \<Rightarrow> int \<Rightarrow> int \<Rightarrow> int" where
  "chooseSplitPos text maxChunkSize startPos =
     (let endPos = startPos + maxChunkSize;
          splitPos1 = lastIndexOf text paragraphBreak endPos;
          splitPos2 = (if rejected splitPos1 startPos endPos maxChunkSize
                       then lastIndexOf text sentenceBreak endPos else splitPos1)
      in if rejected splitPos2 startPos endPos maxChunkSize then endPos else splitPos2)"

partial_function (option) startPosLoop ::
  "string \<Rightarrow> int \<Rightarrow> int \<Rightarrow> int \<Rightarrow> string list \<Rightarrow> string list option" where
  "startPosLoop text maxChunkSize overlapSize startPos chunks =
     (if startPos < int (length text)
      then (if startPos + maxChunkSize \<ge> int (length text)
            then Some (chunks @ [substringFrom text startPos])
            else startPosLoop text maxChunkSize overlapSize
                   (max startPos (chooseSplitPos text maxChunkSize startPos - overlapSize))
                   (chunks @ [substring text startPos (chooseSplitPos text maxChunkSize startPos)]))
      else Some chunks)"

declare startPosLoop.simps [code]

definition splitIntoChunks_first :: "string \<Rightarrow> int \<Rightarrow> int \<Rightarrow> string list option" where
  "splitIntoChunks_first text maxChunkSize overlapSize =
     (if text = [] then Some []
      else if int (length text) \<le> maxChunkSize then Some [text]
      else startPosLoop text maxChunkSize overlapSize 0 [])"

subsection \<open>\<open>DocAnalyzer._splitIntoChunks\<close>, second definition of the class in part_001\<close>

text \<open>
  A class body that declares a method twice keeps the later declaration, so this is the
  splitter that \<open>analyzeDocument\<close> of part_001 runs. It ignores the configured sizes and
  cuts every 4000 characters. Its \<open>try\<close> block contains nothing that throws on a string;
  the \<open>catch\<close> branch is therefore not reachable and not modelled.
\<close>

function fixedSizeLoop :: "string \<Rightarrow> nat \<Rightarrow> string list \<Rightarrow> string list" where
  "fixedSizeLoop text i chunks =
     (if i < length text
      then fixedSizeLoop text (i + 4000) (chunks @ [slice text (int i) (int i + 4000)])
      else chunks)"
  by pat_completeness auto
termination
  by (relation "measure (\<lambda>(text, i, chunks). length text - i)") auto

declare fixedSizeLoop.simps [simp del]

definition splitIntoChunks :: "string \<Rightarrow> string list" where
  "splitIntoChunks text = (if text = [] then [] else fixedSizeLoop text 0 [])"

text \<open>The text of the unit test \<open>should apply overlap between chunks\<close>.\<close>

definition overlapTestText :: string where
  "overlapTestText = ''Part A content.'' @ paragraphBreak @ ''Part B content.'' @ paragraphBreak
     @ ''Part C content.'' @ paragraphBreak @ ''Part D content.''"


section \<open>JSON values and \<open>JSON.parse\<close>\<close>

text \<open>
  \<open>JSON.parse\<close> belongs to the JavaScript runtime, not to the repository. It is modelled
  after the JSON grammar of ECMA-262: a tokenizer, then a push-down recognizer that
  builds the value. A number is kept as an exact decimal \<open>mantissa * 10 ^ exponent\<close>
  (the rounding to a double is not modelled); an object is its list of members in order
  of first appearance, a repeated key overwriting the earlier value. \<open>None\<close> stands for the
  \<open>SyntaxError\<close> that \<open>JSON.parse\<close> throws.
\<close>

datatype json =
    JNull
  | JBool bool
  | JNum int int
  | JStr string
  | JArr "json list"
  | JObj "(string \<times> json) list"

datatype token =
    TLBrace | TRBrace | TLBracket | TRBracket | TComma | TColon
  | TString string | TNumber int int | TTrue | TFalse | TNull

abbreviation dquote :: char where "dquote \<equiv> CHR 0x22"
abbreviation squote :: char where "squote \<equiv> CHR 0x27"
abbreviation backslash :: char where "backslash \<equiv> CHR 0x5C"
abbreviation backtick :: char where "backtick \<equiv> CHR 0x60"

definition isJsonWhitespace :: "char \<Rightarrow> bool" where
  "isJsonWhitespace c = (c = CHR 0x20 \<or> c = CHR 0x09 \<or> c = CHR 0x0A \<or> c = CHR 0x0D)"

definition isDigit :: "char \<Rightarrow> bool" where
  "isDigit c = (c \<in> set ''0123456789'')"

definition digitValue :: "char \<Rightarrow> nat" where
  "digitValue c = of_char c - 48"

definition digitsValue :: "string \<Rightarrow> nat" where
  "digitsValue ds = foldl (\<lambda>n c. 10 * n + digitValue c) 0 ds"

definition hexValue :: "char \<Rightarrow> nat option" where
  "hexValue c =
     (if isDigit c then Some (of_char c - 48)
      else if c \<in> set ''abcdef'' then Some (of_char c - 87)
      else if c \<in> set ''ABCDEF'' then Some (of_char c - 55)
      else None)"

text \<open>The character a one-letter escape stands for.\<close>

definition unescape :: "char \<Rightarrow> char option" where
  "unescape e =
     (if e = dquote then Some dquote
      else if e = backslash then Some backslash
      else if e = CHR ''/'' then Some (CHR ''/'')
      else if e = CHR ''b'' then Some (CHR 0x08)
      else if e = CHR ''f'' then Some (CHR 0x0C)
      else if e = CHR ''n'' then Some (CHR 0x0A)
      else if e = CHR ''r'' then Some (CHR 0x0D)
      else if e = CHR ''t'' then Some (CHR 0x09)
      else None)"

text \<open>
  The body of a string literal, read after its opening quote: the decoded string and the
  input left after the closing quote. The reader is in one of three modes: between
  escapes, right after a backslash, or inside the four hex digits of a \<open>\uXXXX\<close> escape
  (holding the digits read so far). Such an escape is accepted for every four hex digits;
  its code unit is stored modulo 256, since characters have eight bits here.
\<close>

datatype smode = Plain | Escaped | Unicode "nat list"

fun lexString :: "smode \<Rightarrow> string \<Rightarrow> string \<Rightarrow> (string \<times> string) option" where
  "lexString m [] acc = None"
| "lexString Plain (c # cs) acc =
     (if c = dquote then Some (rev acc, cs)
      else if c = backslash then lexString Escaped cs acc
      else if (of_char c :: nat) < 32 then None
      else lexString Plain cs (c # acc))"
| "lexString Escaped (e # cs) acc =
     (if e = CHR ''u'' then lexString (Unicode []) cs acc
      else (case unescape e of
              Some ch \<Rightarrow> lexString Plain cs (ch # acc)
            | None \<Rightarrow> None))"
| "lexString (Unicode ds) (h # cs) acc =
     (case hexValue h of
        None \<Rightarrow> None
      | Some v \<Rightarrow>
          if length ds = 3
          then lexString Plain cs (char_of (foldl (\<lambda>n d. 16 * n + d) 0 (ds @ [v])) # acc)
          else lexString (Unicode (ds @ [v])) cs acc)"

definition isNumberChar :: "char \<Rightarrow> bool" where
  "isNumberChar c = (isDigit c \<or> c \<in> set ''+-.eE'')"

text \<open>
  A number lexeme against the grammar \<open>-? (0 | [1-9][0-9]*) (. [0-9]+)? ([eE] [+-]? [0-9]+)?\<close>,
  and its value as mantissa and decimal exponent.
\<close>

definition parseNumber :: "string \<Rightarrow> (int \<times> int) option" where
  "parseNumber lexeme =
     (let negative = (lexeme \<noteq> [] \<and> hd lexeme = CHR ''-'');
          body = (if negative then tl lexeme else lexeme);
          intDigits = takeWhile isDigit body;
          afterInt = dropWhile isDigit body;
          hasFrac = (afterInt \<noteq> [] \<and> hd afterInt = CHR ''.'');
          fracDigits = (if hasFrac then takeWhile isDigit (tl afterInt) else []);
          afterFrac = (if hasFrac then dropWhile isDigit (tl afterInt) else afterInt);
          hasExp = (afterFrac \<noteq> [] \<and> (hd afterFrac = CHR ''e'' \<or> hd afterFrac = CHR ''E''));
          expBody = (if hasExp then tl afterFrac else []);
          expNegative = (expBody \<noteq> [] \<and> hd expBody = CHR ''-'');
          expDigits = (if expBody \<noteq> [] \<and> (hd expBody = CHR ''-'' \<or> hd expBody = CHR ''+'')
                       then tl expBody else expBody)
      in if intDigits = [] \<or> (hd intDigits = CHR ''0'' \<and> length intDigits > 1) then None
         else if hasFrac \<and> fracDigits = [] then None
         else if \<not> hasExp \<and> afterFrac \<noteq> [] then None
         else if hasExp \<and> (expDigits = [] \<or> \<not> list_all isDigit expDigits) then None
         else Some ((if negative then - 1 else 1) * int (digitsValue (intDigits @ fracDigits)),
                    (if hasExp
                     then (if expNegative then - 1 else 1) * int (digitsValue expDigits)
                     else 0) - int (length fracDigits)))"

text \<open>
  The tokenizer. A number is read as the longest run of number characters and then
  checked; a character that cannot start a token makes the whole text invalid.
\<close>

function tokenize :: "string \<Rightarrow> token list option" where
  "tokenize [] = Some []"
| "tokenize (c # cs) =
     (if isJsonWhitespace c then tokenize cs
      else if c = CHR ''{'' then map_option ((#) TLBrace) (tokenize cs)
      else if c = CHR ''}'' then map_option ((#) TRBrace) (tokenize cs)
      else if c = CHR ''['' then map_option ((#) TLBracket) (tokenize cs)
      else if c = CHR '']'' then map_option ((#) TRBracket) (tokenize cs)
      else if c = CHR '','' then map_option ((#) TComma) (tokenize cs)
      else if c = CHR '':'' then map_option ((#) TColon) (tokenize cs)
      else if c = dquote then
        (case lexString Plain cs [] of
           None \<Rightarrow> None
         | Some (s, rest) \<Rightarrow> map_option ((#) (TString s)) (tokenize rest))
      else if c = CHR ''-'' \<or> isDigit c then
        (case parseNumber (c # takeWhile isNumberChar cs) of
           None \<Rightarrow> None
         | Some (m, e) \<Rightarrow> map_option ((#) (TNumber m e)) (tokenize (dropWhile isNumberChar cs)))
      else if prefix ''true'' (c # cs) then map_option ((#) TTrue) (tokenize (drop 3 cs))
      else if prefix ''false'' (c # cs) then map_option ((#) TFalse) (tokenize (drop 4 cs))
      else if prefix ''null'' (c # cs) then map_option ((#) TNull) (tokenize (drop 3 cs))
      else None)"
  by pat_completeness auto
termination
proof (relation "measure length")
  have shorter: "lexString m cs acc = Some (s, rest) \<Longrightarrow> length rest < Suc (length cs)"
    for m cs acc s rest
    by (induction m cs acc rule: lexString.induct) (auto split: if_splits option.splits)
  fix c cs x2 x y
  assume "lexString Plain cs [] = Some x2" "(x, y) = x2"
  then show "(y, c # cs) \<in> measure length"
    using shorter [of Plain cs "[]" x y] by simp
next
  fix c :: char and cs :: string
  show "(dropWhile isNumberChar cs, c # cs) \<in> measure length"
    using length_dropWhile_le [of isNumberChar cs] by simp
qed simp_all

text \<open>
  The recognizer reads the tokens one by one. A frame of its stack is an enclosing array
  with the elements read so far, or an enclosing object with its members read so far and
  the key whose value is being read.
\<close>

datatype frame =
    InArray "json list"
  | InObject "(string \<times> json) list" string

datatype pstate =
    WantValue "frame list"
  | AfterOpenBracket "frame list"
  | AfterOpenBrace "frame list"
  | WantKey "(string \<times> json) list" "frame list"
  | WantColon "(string \<times> json) list" string "frame list"
  | HaveValue json "frame list"

text \<open>A token that starts a value.\<close>

fun startValue :: "frame list \<Rightarrow> token \<Rightarrow> pstate option" where
  "startValue st TLBracket = Some (AfterOpenBracket st)"
| "startValue st TLBrace = Some (AfterOpenBrace st)"
| "startValue st (TString s) = Some (HaveValue (JStr s) st)"
| "startValue st (TNumber m e) = Some (HaveValue (JNum m e) st)"
| "startValue st TTrue = Some (HaveValue (JBool True) st)"
| "startValue st TFalse = Some (HaveValue (JBool False) st)"
| "startValue st TNull = Some (HaveValue JNull st)"
| "startValue st _ = None"

fun pstep :: "pstate \<Rightarrow> token \<Rightarrow> pstate option" where
  "pstep (WantValue st) t = startValue st t"
| "pstep (AfterOpenBracket st) t =
     (if t = TRBracket then Some (HaveValue (JArr []) st) else startValue (InArray [] # st) t)"
| "pstep (AfterOpenBrace st) t =
     (case t of
        TRBrace \<Rightarrow> Some (HaveValue (JObj []) st)
      | TString k \<Rightarrow> Some (WantColon [] k st)
      | _ \<Rightarrow> None)"
| "pstep (WantKey ms st) t =
     (case t of TString k \<Rightarrow> Some (WantColon ms k st) | _ \<Rightarrow> None)"
| "pstep (WantColon ms k st) t =
     (case t of TColon \<Rightarrow> Some (WantValue (InObject ms k # st)) | _ \<Rightarrow> None)"
| "pstep (HaveValue v []) t = None"
| "pstep (HaveValue v (InArray es # st)) t =
     (case t of
        TComma \<Rightarrow> Some (WantValue (InArray (es @ [v]) # st))
      | TRBracket \<Rightarrow> Some (HaveValue (JArr (es @ [v])) st)
      | _ \<Rightarrow> None)"
| "pstep (HaveValue v (InObject ms k # st)) t =
     (case t of
        TComma \<Rightarrow> Some (WantKey (AList.update k v ms) st)
      | TRBrace \<Rightarrow> Some (HaveValue (JObj (AList.update k v ms)) st)
      | _ \<Rightarrow> None)"

fun prun :: "pstate \<Rightarrow> token list \<Rightarrow> json option" where
  "prun (HaveValue v []) [] = Some v"
| "prun s [] = None"
| "prun s (t # ts) = (case pstep s t of None \<Rightarrow> None | Some s' \<Rightarrow> prun s' ts)"

definition JSON_parse :: "string \<Rightarrow> json option" where
  "JSON_parse text =
     (case tokenize text of None \<Rightarrow> None | Some ts \<Rightarrow> prun (WantValue []) ts)"

text \<open>What \<open>if (v)\<close> and \<open>!v\<close> test on a parsed value.\<close>

fun truthy :: "json \<Rightarrow> bool" where
  "truthy JNull = False"
| "truthy (JBool b) = b"
| "truthy (JNum m e) = (m \<noteq> 0)"
| "truthy (JStr s) = (s \<noteq> [])"
| "truthy (JArr es) = True"
| "truthy (JObj ms) = True"

section \<open>Extracting and repairing JSON in a model response\<close>

text \<open>
  White space as \<open>String.prototype.trim\<close> and the regular-expression class \<open>\s\<close> see it, among
  the characters below 256.
\<close>

definition isSpace :: "char \<Rightarrow> bool" where
  "isSpace c = (c = CHR 0x09 \<or> c = CHR 0x0A \<or> c = CHR 0x0B \<or> c = CHR 0x0C
                \<or> c = CHR 0x0D \<or> c = CHR 0x20 \<or> c = CHR 0xA0)"

definition trim :: "string \<Rightarrow> string" where
  "trim s = rev (dropWhile isSpace (rev (dropWhile isSpace s)))"

text \<open>\<open>DocAnalyzer._extractJsonFromText\<close>; \<open>None\<close> is the \<open>null\<close> it returns.\<close>

definition extractJsonFromText :: "string \<Rightarrow> string option" where
  "extractJsonFromText text =
     (if text = [] then None
      else (let jsonStartIndex = indexOf text ''{'';
                jsonEndIndex = lastIndexOfEnd text ''}''
            in if jsonStartIndex \<ge> 0 \<and> jsonEndIndex > jsonStartIndex
               then Some (substring text jsonStartIndex (jsonEndIndex + 1))
               else None))"

text \<open>\<open>replace(/```json|```/g, '')\<close>: at each position the longer alternative is tried first.\<close>

function removeFences :: "string \<Rightarrow> string" where
  "removeFences [] = []"
| "removeFences (c # cs) =
     (if prefix [backtick, backtick, backtick, CHR ''j'', CHR ''s'', CHR ''o'', CHR ''n''] (c # cs)
      then removeFences (drop 6 cs)
      else if prefix [backtick, backtick, backtick] (c # cs)
      then removeFences (drop 2 cs)
      else c # removeFences cs)"
  by pat_completeness auto
termination
  by (relation "measure length") auto

text \<open>
  \<open>replace(/(?<!\\)"/g, '\\"')\<close>: a double quote that does not follow a backslash gets one in
  front. The look-behind reads the text being scanned, so the function carries whether
  the character before the current one was a backslash.
\<close>

fun escapeQuotes :: "bool \<Rightarrow> string \<Rightarrow> string" where
  "escapeQuotes afterBackslash [] = []"
| "escapeQuotes afterBackslash (c # cs) =
     (if c = dquote \<and> \<not> afterBackslash
      then backslash # dquote # escapeQuotes False cs
      else c # escapeQuotes (c = backslash) cs)"

text \<open>\<open>replace(/\\\\"/g, '\\"')\<close>: two backslashes and a quote become one backslash and a quote.\<close>

fun fixDoubleEscaping :: "string \<Rightarrow> string" where
  "fixDoubleEscaping (c1 # c2 # c3 # cs) =
     (if c1 = backslash \<and> c2 = backslash \<and> c3 = dquote
      then backslash # dquote # fixDoubleEscaping cs
      else c1 # fixDoubleEscaping (c2 # c3 # cs))"
| "fixDoubleEscaping cs = cs"

text \<open>\<open>replace(/'/g, '"')\<close>.\<close>

definition singleToDoubleQuotes :: "string \<Rightarrow> string" where
  "singleToDoubleQuotes s = map (\<lambda>c. if c = squote then dquote else c) s"

text \<open>
  \<open>cleaned.match(/{[^]*}/)\<close>: the leftmost match starts at the first \<open>{\<close> and, the star being
  greedy over every character, ends at the last \<open>}\<close> behind it. Without a \<open>}\<close> behind the
  first \<open>{\<close> no later start can match either.
\<close>

definition matchOuterBraces :: "string \<Rightarrow> string option" where
  "matchOuterBraces s =
     (let fromOpen = dropWhile (\<lambda>c. c \<noteq> CHR ''{'') s
      in if CHR ''}'' \<in> set fromOpen
         then Some (rev (dropWhile (\<lambda>c. c \<noteq> CHR ''}'') (rev fromOpen)))
         else None)"

definition cleanJson :: "string \<Rightarrow> string" where
  "cleanJson jsonStr =
     singleToDoubleQuotes (fixDoubleEscaping (escapeQuotes False (trim (removeFences jsonStr))))"

text \<open>
  \<open>DocAnalyzer._attemptJsonFix\<close>. The result is the parsed value; \<open>JNull\<close> is JavaScript's
  \<open>null\<close>, returned when the string is empty, when nothing parses, and when the inner
  \<open>JSON.parse\<close> throws into the outer \<open>catch\<close>.
\<close>

definition attemptJsonFix :: "string \<Rightarrow> json" where
  "attemptJsonFix jsonStr =
     (if jsonStr = [] then JNull
      else (let cleaned = cleanJson jsonStr
            in case JSON_parse cleaned of
                 Some v \<Rightarrow> v
               | None \<Rightarrow>
                   (case matchOuterBraces cleaned of
                      Some objectMatch \<Rightarrow>
                        (if objectMatch \<noteq> []
                         then (case JSON_parse objectMatch of Some v \<Rightarrow> v | None \<Rightarrow> JNull)
                         else JNull)
                    | None \<Rightarrow> JNull)))"

section \<open>The model client\<close>

text \<open>
  An exception is an \<open>Error\<close> object with its message. The language model is an arbitrary
  environment: its answer to a call may depend on the call and on every call issued
  before. A call is recorded by the data its prompts are built from (the chunk text; for
  the merge call the valid chunk results, the document preview and the analysis type),
  not by the prompt text itself. \<open>LLMService.query\<close> returns the content string of the
  first choice and rethrows whatever the HTTP client throws.
\<close>

datatype exn = Error string

datatype chunk_result =
    ChunkOk json bool string
  | ChunkFailed string string

datatype llm_call =
    TestCall
  | ChunkCall string
  | SynthesisCall "chunk_result list" string string

type_synonym llm = "llm_call list \<Rightarrow> llm_call \<Rightarrow> exn + string"

definition query :: "llm \<Rightarrow> llm_call \<Rightarrow> llm_call list \<Rightarrow> (exn + string) \<times> llm_call list" where
  "query service call log = (service log call, log @ [call])"

section \<open>The chunk analyzer\<close>

text \<open>
  \<open>ChunkOk data wasFixed rawContent\<close> is the object \<open>{success: true, data, rawContent}\<close> (with
  \<open>wasFixed: true\<close> after a repair); \<open>ChunkFailed error rawContent\<close> is
  \<open>{success: false, error, rawContent}\<close>.

  The body of the \<open>try\<close> block of \<open>_analyzeChunkWithLLM\<close>, from the reply of the query on: an
  exception of the query leaves the body.
\<close>

definition analyzeChunkBody :: "exn + string \<Rightarrow> exn + chunk_result" where
  "analyzeChunkBody reply =
     (case reply of
        Inl e \<Rightarrow> Inl e
      | Inr response \<Rightarrow>
          if response = [] \<or> trim response = []
          then Inr (ChunkFailed ''Empty response from LLM'' [])
          else (case extractJsonFromText response of
                  None \<Rightarrow> Inr (ChunkFailed ''JSON parsing failed'' response)
                | Some jsonContent \<Rightarrow>
                    if jsonContent = [] then Inr (ChunkFailed ''JSON parsing failed'' response)
                    else (case JSON_parse jsonContent of
                            Some parsedContent \<Rightarrow> Inr (ChunkOk parsedContent False response)
                          | None \<Rightarrow>
                              (let fixedJson = attemptJsonFix jsonContent
                               in if truthy fixedJson
                                  then Inr (ChunkOk fixedJson True response)
                                  else Inr (ChunkFailed ''JSON parsing failed'' response)))))"

text \<open>The \<open>catch\<close> of \<open>_analyzeChunkWithLLM\<close> turns an exception into a failed result.\<close>

definition analyzeChunkWithLLM ::
  "llm \<Rightarrow> string \<Rightarrow> llm_call list \<Rightarrow> (exn + chunk_result) \<times> llm_call list" where
  "analyzeChunkWithLLM service chunk log =
     (case query service (ChunkCall chunk) log of
        (reply, log') \<Rightarrow>
          (case analyzeChunkBody reply of
             Inl (Error message) \<Rightarrow> (Inr (ChunkFailed message []), log')
           | Inr result \<Rightarrow> (Inr result, log')))"

text \<open>
  \<open>Promise.all(chunks.map(...))\<close>: every chunk's query is issued, in chunk order; the
  results come back in chunk order; the first rejection, if any, rejects the whole.
\<close>

fun analyzeChunks ::
  "llm \<Rightarrow> string list \<Rightarrow> llm_call list \<Rightarrow> (exn + chunk_result list) \<times> llm_call list" where
  "analyzeChunks service [] log = (Inr [], log)"
| "analyzeChunks service (chunk # chunks) log =
     (case analyzeChunkWithLLM service chunk log of
        (r, log') \<Rightarrow>
          (case analyzeChunks service chunks log' of
             (rs, log'') \<Rightarrow>
               (case r of
                  Inl e \<Rightarrow> (Inl e, log'')
                | Inr result \<Rightarrow>
                    (case rs of
                       Inl e \<Rightarrow> (Inl e, log'')
                     | Inr results \<Rightarrow> (Inr (result # results), log'')))))"

section \<open>The synthesizer\<close>

text \<open>
  \<open>_basicCombineResults\<close> dispatches to \<open>_combineOutlineResults\<close>, \<open>_combineImportanceResults\<close>
  or \<open>_combineComprehensiveResults\<close>. The class defines none of them, so the call throws a
  \<open>TypeError\<close>.
\<close>

definition basicCombineResults :: "chunk_result list \<Rightarrow> string \<Rightarrow> exn + json" where
  "basicCombineResults results analysisType =
     (if analysisType = ''outline''
      then Inl (Error ''this._combineOutlineResults is not a function'')
      else if analysisType = ''importance''
      then Inl (Error ''this._combineImportanceResults is not a function'')
      else Inl (Error ''this._combineComprehensiveResults is not a function''))"

text \<open>\<open>result => !result.error\<close>: a result without an \<open>error\<close> field, or with an empty message.\<close>

fun hasNoError :: "chunk_result \<Rightarrow> bool" where
  "hasNoError (ChunkOk d f raw) = True"
| "hasNoError (ChunkFailed message raw) = (message = [])"

definition noValidResults :: json where
  "noValidResults = JObj [(''error'', JStr ''No valid analysis results to synthesize''),
                          (''message'', JStr ''All chunks failed analysis'')]"

definition synthesisErrorResult :: "string \<Rightarrow> json" where
  "synthesisErrorResult synthesisResponse =
     JObj [(''synthesisError'', JStr ''Could not parse synthesis result''),
           (''rawSynthesis'', JStr synthesisResponse)]"

definition contentSummary :: "string \<Rightarrow> string" where
  "contentSummary originalContent =
     substring originalContent 0 500 @ (if length originalContent > 500 then ''...'' else [])"

text \<open>
  \<open>_synthesizeResults\<close>. The query answers with a string, so the branch for a response of
  type \<open>object\<close> is never taken.
\<close>

definition synthesizeResults ::
  "llm \<Rightarrow> chunk_result list \<Rightarrow> string \<Rightarrow> string \<Rightarrow> llm_call list
     \<Rightarrow> (exn + json) \<times> llm_call list" where
  "synthesizeResults service chunkResults analysisType originalContent log =
     (let validResults = filter hasNoError chunkResults
      in if validResults = [] then (Inr noValidResults, log)
         else (case query service
                      (SynthesisCall validResults (contentSummary originalContent) analysisType)
                      log of
                 (Inr synthesisResponse, log') \<Rightarrow>
                   (case JSON_parse synthesisResponse of
                      Some v \<Rightarrow> (Inr v, log')
                    | None \<Rightarrow> (Inr (synthesisErrorResult synthesisResponse), log'))
               | (Inl e, log') \<Rightarrow> (basicCombineResults validResults analysisType, log')))"

text \<open>\<open>testLLMResponse\<close>: one query whose outcome only decides a boolean; nothing is thrown.\<close>

definition testLLMResponse :: "llm \<Rightarrow> llm_call list \<Rightarrow> bool \<times> llm_call list" where
  "testLLMResponse service log =
     (case query service TestCall log of
        (Inl e, log') \<Rightarrow> (False, log')
      | (Inr response, log') \<Rightarrow>
          (if response = [] \<or> trim response = [] then (False, log')
           else (JSON_parse response \<noteq> None, log')))"

section \<open>The orchestrator\<close>

text \<open>
  The document handed to \<open>analyzeDocument\<close>: a falsy value, a string, or an object. Of an
  object the model keeps the fields \<open>content\<close>, \<open>text\<close> and \<open>data\<close> where they hold strings,
  what \<open>JSON.stringify\<close> makes of the object (\<open>None\<close> where it throws or yields
  \<open>undefined\<close>), and \<open>fileName\<close>.
\<close>

record doc_object =
  contentField :: "string option"
  textField :: "string option"
  dataField :: "string option"
  stringified :: "string option"
  fileName :: "string option"

datatype document = DocNull | DocString string | DocObject doc_object

text \<open>A field that holds a non-empty string, which is what \<open>field && typeof field === 'string'\<close> tests.\<close>

definition truthyString :: "string option \<Rightarrow> string option" where
  "truthyString f = (case f of None \<Rightarrow> None | Some s \<Rightarrow> if s = [] then None else Some s)"

fun extractContent :: "document \<Rightarrow> string" where
  "extractContent DocNull = []"
| "extractContent (DocString s) = s"
| "extractContent (DocObject d) =
     (case truthyString (contentField d) of
        Some s \<Rightarrow> s
      | None \<Rightarrow>
          (case truthyString (textField d) of
             Some s \<Rightarrow> s
           | None \<Rightarrow>
               (case truthyString (dataField d) of
                  Some s \<Rightarrow> s
                | None \<Rightarrow> (case stringified d of None \<Rightarrow> [] | Some s \<Rightarrow> s))))"

definition isNonPrintable :: "char \<Rightarrow> bool" where
  "isNonPrintable c =
     (let code = (of_char c :: nat)
      in (code < 32 \<and> code \<noteq> 9 \<and> code \<noteq> 10 \<and> code \<noteq> 13) \<or> (code \<ge> 127 \<and> code \<le> 159))"

definition binarySignatures :: "string list" where
  "binarySignatures = [''%PDF-'', ''PK'', ''ID3'', ''GIF'', ''PNG'', ''JFIF'', ''BM'', ''MZ'']"

text \<open>\<open>nonPrintableCount > sampleSize * 0.1\<close> is compared here with both sides times ten.\<close>

definition isBinaryContent :: "string \<Rightarrow> bool" where
  "isBinaryContent s =
     (if s = [] then True
      else (let sampleSize = min (length s) 1000;
                nonPrintableCount = length (filter isNonPrintable (take sampleSize s))
            in if 10 * nonPrintableCount > sampleSize then True
               else (\<exists>sig \<in> set binarySignatures. includes_str (substring s 0 20) sig)))"

text \<open>The four replacements of \<open>_cleanTextContent\<close>, each a left-to-right greedy scan.\<close>

definition isStrippedControl :: "char \<Rightarrow> bool" where
  "isStrippedControl c =
     (let code = (of_char c :: nat)
      in code \<le> 8 \<or> code = 11 \<or> code = 12 \<or> (14 \<le> code \<and> code \<le> 31)
         \<or> (127 \<le> code \<and> code \<le> 159))"

function replaceLongRuns :: "string \<Rightarrow> string" where
  "replaceLongRuns [] = []"
| "replaceLongRuns (c # cs) =
     (if isSpace c then c # replaceLongRuns cs
      else (let run = c # takeWhile (\<lambda>x. \<not> isSpace x) cs
            in (if length run \<ge> 100 then ''[BINARY DATA REMOVED]'' else run)
               @ replaceLongRuns (dropWhile (\<lambda>x. \<not> isSpace x) cs)))"
  by pat_completeness auto
termination
proof (relation "measure length")
  fix c :: char and cs :: string
  show "(dropWhile (\<lambda>x. \<not> isSpace x) cs, c # cs) \<in> measure length"
    using length_dropWhile_le [of "\<lambda>x. \<not> isSpace x" cs] by simp
qed simp_all

definition isLineTerminator :: "char \<Rightarrow> bool" where
  "isLineTerminator c = (c = CHR 0x0A \<or> c = CHR 0x0D)"

function limitRepeats :: "string \<Rightarrow> string" where
  "limitRepeats [] = []"
| "limitRepeats (c # cs) =
     (if \<not> isLineTerminator c \<and> length (takeWhile (\<lambda>x. x = c) cs) \<ge> 20
      then [c, c, c] @ '' [REPEATED CHARS REMOVED] ''
           @ limitRepeats (dropWhile (\<lambda>x. x = c) cs)
      else c # limitRepeats cs)"
  by pat_completeness auto
termination
proof (relation "measure length")
  fix c :: char and cs :: string
  show "(dropWhile (\<lambda>x. x = c) cs, c # cs) \<in> measure length"
    using length_dropWhile_le [of "\<lambda>x. x = c" cs] by simp
qed simp_all

function collapseWhitespace :: "string \<Rightarrow> string" where
  "collapseWhitespace [] = []"
| "collapseWhitespace (c # cs) =
     (if isSpace c
      then (let run = c # takeWhile isSpace cs
            in (if length run \<ge> 3 then paragraphBreak else run)
               @ collapseWhitespace (dropWhile isSpace cs))
      else c # collapseWhitespace cs)"
  by pat_completeness auto
termination
proof (relation "measure length")
  fix c :: char and cs :: string
  show "(dropWhile isSpace cs, c # cs) \<in> measure length"
    using length_dropWhile_le [of isSpace cs] by simp
qed simp_all

definition cleanTextContent :: "string \<Rightarrow> string" where
  "cleanTextContent s =
     (if s = [] then []
      else collapseWhitespace (limitRepeats (replaceLongRuns
             (filter (\<lambda>c. \<not> isStrippedControl c) s))))"

text \<open>
  The envelope. Its \<open>data\<close> is a chunk result (single-chunk documents), or a JSON value
  (the synthesis; \<open>Value JNull\<close> is \<open>null\<close>). A field missing from the object literal is
  \<open>None\<close>. The time stamp of \<open>meta\<close> is left out.
\<close>

datatype result_data = ChunkData chunk_result | Value json

record meta =
  analysisTypeField :: string
  chunkCount :: nat
  documentLength :: nat
  documentName :: "string option"

record analysis_result =
  success :: bool
  data :: result_data
  error :: "string option"
  meta :: "meta option"

definition documentFileName :: "document \<Rightarrow> string" where
  "documentFileName d =
     (case d of
        DocObject obj \<Rightarrow> (case truthyString (fileName obj) of Some name \<Rightarrow> name
                          | None \<Rightarrow> ''unknown'')
      | _ \<Rightarrow> ''unknown'')"

definition failure :: "string \<Rightarrow> analysis_result" where
  "failure message = \<lparr>success = False, data = Value JNull, error = Some message, meta = None\<rparr>"

text \<open>The body of the \<open>try\<close> block of \<open>analyzeDocument\<close> (part_001).\<close>

definition analyzeDocumentBody ::
  "llm \<Rightarrow> document \<Rightarrow> string \<Rightarrow> llm_call list \<Rightarrow> (exn + analysis_result) \<times> llm_call list" where
  "analyzeDocumentBody service doc analysisType log =
     (let content = extractContent doc
      in if content = [] \<or> isBinaryContent content
         then (Inr (failure ''Invalid or binary content detected''), log)
         else (case testLLMResponse service log of
                 (tested, log1) \<Rightarrow>
                   (let cleaned = cleanTextContent content;
                        chunks = splitIntoChunks cleaned
                    in case analyzeChunks service chunks log1 of
                         (Inl e, log2) \<Rightarrow> (Inl e, log2)
                       | (Inr chunkResults, log2) \<Rightarrow>
                           if length chunks = 1
                           then (Inr \<lparr>success = True, data = ChunkData (hd chunkResults),
                                      error = None,
                                      meta = Some \<lparr>analysisTypeField = analysisType, chunkCount = 1,
                                                   documentLength = length cleaned,
                                                   documentName = None\<rparr>\<rparr>, log2)
                           else (case synthesizeResults service chunkResults analysisType
                                        cleaned log2 of
                                   (Inl e, log3) \<Rightarrow> (Inl e, log3)
                                 | (Inr combinedResults, log3) \<Rightarrow>
                                     (Inr \<lparr>success = True, data = Value combinedResults,
                                           error = None,
                                           meta = Some \<lparr>analysisTypeField = analysisType,
                                                        chunkCount = length chunks,
                                                        documentLength = length cleaned,
                                                        documentName =
                                                          Some (documentFileName doc)\<rparr>\<rparr>,
                                      log3)))))"

text \<open>\<open>analyzeDocument\<close>: the \<open>catch\<close> turns any exception of the body into a failed envelope.\<close>

definition analyzeDocument ::
  "llm \<Rightarrow> document \<Rightarrow> string \<Rightarrow> llm_call list \<Rightarrow> analysis_result \<times> llm_call list" where
  "analyzeDocument service doc analysisType log =
     (case analyzeDocumentBody service doc analysisType log of
        (Inl (Error message), log') \<Rightarrow> (failure message, log')
      | (Inr result, log') \<Rightarrow> (result, log'))"

section \<open>Concrete scenarios\<close>

text \<open>The model response of the specification's third scenario.\<close>

definition scenario3 :: string where
  \<open>scenario3 = ''Sure! Here is the JSON: {"title":"X"} Hope that helps!''\<close>

section \<open>The cut rule in the specification's words\<close>

text \<open>
  \<open>nearestBreak t brk pos p\<close>: the break \<open>brk\<close> occurs in \<open>t\<close> at position \<open>p\<close>, at or before
  \<open>pos\<close>, and nowhere between \<open>p\<close> and \<open>pos\<close>. \<open>accepted p startPos maxChunkSize\<close>: the
  candidate \<open>p\<close> lies strictly after the chunk start and not more than \<open>maxChunkSize / 2\<close>
  characters before the hard cut \<open>startPos + maxChunkSize\<close>.
\<close>

definition nearestBreak :: "string \<Rightarrow> string \<Rightarrow> int \<Rightarrow> int \<Rightarrow> bool" where
  "nearestBreak t brk pos p =
     (0 \<le> p \<and> p \<le> pos \<and> prefix brk (drop (nat p) t)
      \<and> (\<forall>q \<in> set [p + 1 .. pos]. \<not> prefix brk (drop (nat q) t)))"

definition accepted :: "int \<Rightarrow> int \<Rightarrow> int \<Rightarrow> bool" where
  "accepted p startPos maxChunkSize =
     (startPos < p \<and> 2 * (startPos + maxChunkSize - p) \<le> maxChunkSize)"

text \<open>A text with a paragraph break 1000 characters before the 4000th.\<close>

definition paragraphAt3000 :: string where
  "paragraphAt3000 = replicate 3000 (CHR ''a'') @ paragraphBreak @ replicate 2000 (CHR ''b'')"

text \<open>A text with a paragraph break right behind its first character.\<close>

definition earlyBreakText :: string where
  "earlyBreakText = ''a'' @ paragraphBreak @ ''bbbbbbbbbbbbbbbb''"

text \<open>A text with sentence ends and one paragraph break.\<close>

definition cutRuleText :: string where
  "cutRuleText = ''One. Two'' @ paragraphBreak @ ''Three. Four. Five and more text''"

section \<open>Notions used to state the properties\<close>

text \<open>
  What the chunk analyzer hands back for one chunk, given the calls issued before it, and
  for a list of chunks analysed in order.
\<close>

definition chunkOutcome :: "llm \<Rightarrow> string \<Rightarrow> llm_call list \<Rightarrow> chunk_result" where
  "chunkOutcome service chunk log =
     (case analyzeChunkBody (service log (ChunkCall chunk)) of
        Inl (Error message) \<Rightarrow> ChunkFailed message []
      | Inr result \<Rightarrow> result)"

fun chunkOutcomes :: "llm \<Rightarrow> string list \<Rightarrow> llm_call list \<Rightarrow> chunk_result list" where
  "chunkOutcomes service [] log = []"
| "chunkOutcomes service (chunk # chunks) log =
     chunkOutcome service chunk log # chunkOutcomes service chunks (log @ [ChunkCall chunk])"

text \<open>The content passes the validation at the start of \<open>analyzeDocument\<close>.\<close>

definition validContent :: "document \<Rightarrow> bool" where
  "validContent doc = (extractContent doc \<noteq> [] \<and> \<not> isBinaryContent (extractContent doc))"

definition documentChunks :: "document \<Rightarrow> string list" where
  "documentChunks doc = splitIntoChunks (cleanTextContent (extractContent doc))"

text \<open>The envelope of a multi-chunk analysis whose synthesis yields \<open>v\<close>.\<close>

definition multiEnvelope :: "document \<Rightarrow> string \<Rightarrow> json \<Rightarrow> analysis_result" where
  "multiEnvelope doc analysisType v =
     \<lparr>success = True, data = Value v, error = None,
      meta = Some \<lparr>analysisTypeField = analysisType,
                   chunkCount = length (documentChunks doc),
                   documentLength = length (cleanTextContent (extractContent doc)),
                   documentName = Some (documentFileName doc)\<rparr>\<rparr>"

text \<open>
  A document of 4002 characters that the cleaning leaves as it is, so that it is split
  into two chunks; and the one-chunk document of the first scenario.
\<close>

definition spaced :: "nat \<Rightarrow> string" where
  "spaced n = concat (replicate n ''a '')"

definition twoChunkDoc :: document where
  "twoChunkDoc = DocString (spaced 2001)"

definition shortDoc :: document where
  "shortDoc = DocString ''short doc''"

text \<open>
  Model clients: one that answers every call with the JSON of scenario 3, and variants
  that differ on the merge call or on the chunk calls.
\<close>

definition titleReply :: string where
  \<open>titleReply = ''{"title":"X"}''\<close>

definition helpfulService :: llm where
  "helpfulService log call = Inr titleReply"

definition nullMergeService :: llm where
  "nullMergeService log call =
     (case call of SynthesisCall results summary analysisType \<Rightarrow> Inr ''null''
      | _ \<Rightarrow> Inr titleReply)"

definition garbledMergeService :: llm where
  "garbledMergeService log call =
     (case call of SynthesisCall results summary analysisType \<Rightarrow> Inr ''Here is the merged analysis.''
      | _ \<Rightarrow> Inr titleReply)"

definition failingMergeService :: llm where
  "failingMergeService log call =
     (case call of SynthesisCall results summary analysisType \<Rightarrow> Inl (Error ''Connection error.'')
      | _ \<Rightarrow> Inr titleReply)"

definition failingChunkService :: llm where
  "failingChunkService log call =
     (case call of ChunkCall chunk \<Rightarrow> Inl (Error ''Connection error.'')
      | _ \<Rightarrow> Inr titleReply)"

text \<open>A client whose answer to the first chunk call is blank.\<close>

definition blankFirstService :: llm where
  "blankFirstService log call =
     (case call of ChunkCall chunk \<Rightarrow> (if length log = 1 then Inr ''  '' else Inr titleReply)
      | _ \<Rightarrow> Inr titleReply)"

section \<open>Notions used for the repair function\<close>

text \<open>
  \<open>quotesEscaped b s\<close>: every double quote of \<open>s\<close> stands right behind a backslash, where
  \<open>b\<close> tells whether the character in front of \<open>s\<close> is one. \<open>skeleton s\<close> keeps the braces
  and double quotes of \<open>s\<close>, in order.
\<close>

fun quotesEscaped :: "bool \<Rightarrow> string \<Rightarrow> bool" where
  "quotesEscaped b [] = True"
| "quotesEscaped b (c # cs) = ((c = dquote \<longrightarrow> b) \<and> quotesEscaped (c = backslash) cs)"

definition skeleton :: "string \<Rightarrow> string" where
  "skeleton s = filter (\<lambda>c. c = CHR ''{'' \<or> c = CHR ''}'' \<or> c = dquote) s"

text \<open>
  Candidates for the repair: one with a trailing comma, one whose double quote sits in a
  single-quoted key, and one whose double quote stands in front of the braces.
\<close>

definition trailingComma :: string where
  \<open>trailingComma = ''{"a": 1,}''\<close>

definition quoteInSingleQuotedKey :: string where
  \<open>quoteInSingleQuotedKey = ''{'a"b':1}''\<close>

definition quoteBeforeBraces :: string where
  \<open>quoteBeforeBraces = ''" {}''\<close>

section \<open>Facts about the string primitives\<close>

lemma substring_take_drop:
  assumes "0 \<le> a" "a \<le> b" "b \<le> int (length s)"
  shows "substring s a b = take (nat b - nat a) (drop (nat a) s)"
proof -
  have "clampIndex s a = nat a" "clampIndex s b = nat b"
    using assms by (simp_all add: clampIndex_def min_def max_def)
  moreover have "nat a \<le> nat b" using assms by simp
  ultimately show ?thesis by (simp add: substring_def Let_def min_def max_def)
qed

section \<open>Termination of the configurable splitters\<close>

lemma positionLoop_diverges:
  assumes run: "positionLoop document maxChunkSize overlapSize position chunks = Some result"
    and cfg: "0 < overlapSize" "overlapSize < maxChunkSize"
             "maxChunkSize < int (length document)"
  shows "\<not> (0 \<le> position \<and> position < int (length document))"
proof (rule positionLoop.raw_induct
    [where P = "\<lambda>d m ov p cs r. d = document \<and> m = maxChunkSize \<and> ov = overlapSize
                  \<longrightarrow> \<not> (0 \<le> p \<and> p < int (length document))",
      OF _ run, THEN mp])
  show "document = document \<and> maxChunkSize = maxChunkSize \<and> overlapSize = overlapSize"
    by simp
next
  fix f d m ov p cs r
  assume IH: "\<And>d m ov p cs r. f d m ov p cs = Some r \<Longrightarrow>
                 d = document \<and> m = maxChunkSize \<and> ov = overlapSize
                  \<longrightarrow> \<not> (0 \<le> p \<and> p < int (length document))"
    and body: "(if p < int (length d)
      then (if min (p + m) (int (length d)) - ov \<le> 0 \<or> m \<le> ov
            then Some (cs @ [substring d p (min (p + m) (int (length d)))])
            else f d m ov (min (p + m) (int (length d)) - ov)
                   (cs @ [substring d p (min (p + m) (int (length d)))]))
      else Some cs) = Some r"
  show "d = document \<and> m = maxChunkSize \<and> ov = overlapSize
          \<longrightarrow> \<not> (0 \<le> p \<and> p < int (length document))"
  proof (intro impI notI, elim conjE)
    assume eq: "d = document" "m = maxChunkSize" "ov = overlapSize"
      and p: "0 \<le> p" "p < int (length document)"
    have nobreak: "\<not> (min (p + m) (int (length d)) - ov \<le> 0 \<or> m \<le> ov)"
      using cfg p eq by auto
    from body p eq nobreak
    have "f d m ov (min (p + m) (int (length d)) - ov)
            (cs @ [substring d p (min (p + m) (int (length d)))]) = Some r"
      by simp
    from IH [OF this] eq
    have "\<not> (0 \<le> min (p + m) (int (length d)) - ov
             \<and> min (p + m) (int (length d)) - ov < int (length document))"
      by simp
    with nobreak cfg eq show False by auto
  qed
qed

lemma docanalyzer_never_returns:
  assumes "0 < overlapSize" "overlapSize < maxChunkSize" "maxChunkSize < int (length document)"
  shows "splitIntoChunks_docanalyzer document maxChunkSize overlapSize = None"
proof (cases "splitIntoChunks_docanalyzer document maxChunkSize overlapSize")
  case None then show ?thesis .
next
  case (Some r)
  with assms have "positionLoop document maxChunkSize overlapSize 0 [] = Some r"
    by (simp add: splitIntoChunks_docanalyzer_def)
  from positionLoop_diverges [OF this assms] assms show ?thesis by simp
qed

lemma splitTextLoop_stuck:
  assumes stuck: "startIndex < int (length text)"
                 "chunkEndIndex text chunkSize startIndex - overlapSize \<le> startIndex"
  shows "splitTextLoop text chunkSize overlapSize startIndex chunks = None"
proof (cases "splitTextLoop text chunkSize overlapSize startIndex chunks")
  case None then show ?thesis .
next
  case (Some r)
  have "\<not> (startIndex < int (length text)
          \<and> chunkEndIndex text chunkSize startIndex - overlapSize \<le> startIndex)"
  proof (rule splitTextLoop.raw_induct
      [where P = "\<lambda>t c ov s cs r. \<not> (s < int (length t) \<and> chunkEndIndex t c s - ov \<le> s)",
        OF _ Some])
    fix f t c ov s cs r
    assume IH: "\<And>t c ov s cs r. f t c ov s cs = Some r \<Longrightarrow>
                  \<not> (s < int (length t) \<and> chunkEndIndex t c s - ov \<le> s)"
      and body: "(if s < int (length t)
                  then f t c ov (max s (chunkEndIndex t c s - ov))
                         (cs @ [substring t s (chunkEndIndex t c s)])
                  else Some cs) = Some r"
    show "\<not> (s < int (length t) \<and> chunkEndIndex t c s - ov \<le> s)"
    proof
      assume a: "s < int (length t) \<and> chunkEndIndex t c s - ov \<le> s"
      then have "max s (chunkEndIndex t c s - ov) = s" by simp
      with body a have "f t c ov s (cs @ [substring t s (chunkEndIndex t c s)]) = Some r"
        by simp
      from IH [OF this] a show False by simp
    qed
  qed
  with stuck show ?thesis by simp
qed

lemma startPosLoop_stuck:
  assumes stuck: "startPos + maxChunkSize < int (length text)" "0 < maxChunkSize"
                 "chooseSplitPos text maxChunkSize startPos - overlapSize \<le> startPos"
  shows "startPosLoop text maxChunkSize overlapSize startPos chunks = None"
proof (cases "startPosLoop text maxChunkSize overlapSize startPos chunks")
  case None then show ?thesis .
next
  case (Some r)
  have "\<not> (startPos + maxChunkSize < int (length text) \<and> 0 < maxChunkSize
          \<and> chooseSplitPos text maxChunkSize startPos - overlapSize \<le> startPos)"
  proof (rule startPosLoop.raw_induct
      [where P = "\<lambda>t m ov s cs r.
                    \<not> (s + m < int (length t) \<and> 0 < m \<and> chooseSplitPos t m s - ov \<le> s)",
        OF _ Some])
    fix f t m ov s cs r
    assume IH: "\<And>t m ov s cs r. f t m ov s cs = Some r \<Longrightarrow>
                  \<not> (s + m < int (length t) \<and> 0 < m \<and> chooseSplitPos t m s - ov \<le> s)"
      and body: "(if s < int (length t)
                  then (if s + m \<ge> int (length t)
                        then Some (cs @ [substringFrom t s])
                        else f t m ov (max s (chooseSplitPos t m s - ov))
                               (cs @ [substring t s (chooseSplitPos t m s)]))
                  else Some cs) = Some r"
    show "\<not> (s + m < int (length t) \<and> 0 < m \<and> chooseSplitPos t m s - ov \<le> s)"
    proof
      assume a: "s + m < int (length t) \<and> 0 < m \<and> chooseSplitPos t m s - ov \<le> s"
      then have "max s (chooseSplitPos t m s - ov) = s" by simp
      with body a have "f t m ov s (cs @ [substring t s (chooseSplitPos t m s)]) = Some r"
        by simp
      from IH [OF this] a show False by simp
    qed
  qed
  with stuck show ?thesis by simp
qed

lemma overlapTestText_ends:
  "int (length overlapTestText) = 66"
  "chunkEndIndex overlapTestText 30 0 = 15"
  "chunkEndIndex overlapTestText 30 5 = 32"
  "chunkEndIndex overlapTestText 30 22 = 49"
  "chunkEndIndex overlapTestText 30 39 = 66"
  "chunkEndIndex overlapTestText 30 56 = 66"
  by code_simp+

lemma overlapTest_diverges: "splitTextIntoChunks overlapTestText 30 10 = None"
proof -
  have stuck: "splitTextLoop overlapTestText 30 10 56 cs = None" for cs
    by (rule splitTextLoop_stuck) (simp_all add: overlapTestText_ends)
  have "splitTextIntoChunks overlapTestText 30 10 = splitTextLoop overlapTestText 30 10 0 []"
    by (simp add: splitTextIntoChunks_def)
  also have "\<dots> = splitTextLoop overlapTestText 30 10 5 [substring overlapTestText 0 15]"
    by (subst splitTextLoop.simps) (simp add: overlapTestText_ends)
  also have "\<dots> = splitTextLoop overlapTestText 30 10 22
                     ([substring overlapTestText 0 15] @ [substring overlapTestText 5 32])"
    by (subst splitTextLoop.simps) (simp add: overlapTestText_ends)
  also have "\<dots> = splitTextLoop overlapTestText 30 10 39
                     (([substring overlapTestText 0 15] @ [substring overlapTestText 5 32])
                        @ [substring overlapTestText 22 49])"
    by (subst splitTextLoop.simps) (simp add: overlapTestText_ends)
  also have "\<dots> = splitTextLoop overlapTestText 30 10 56
                     ((([substring overlapTestText 0 15] @ [substring overlapTestText 5 32])
                        @ [substring overlapTestText 22 49]) @ [substring overlapTestText 39 66])"
    by (subst splitTextLoop.simps) (simp add: overlapTestText_ends)
  also have "\<dots> = None" by (rule stuck)
  finally show ?thesis .
qed

lemma first_diverges: "splitIntoChunks_first ''aaaaa. bbbbbbbbbbbbbbb'' 10 6 = None"
proof -
  have c: "chooseSplitPos ''aaaaa. bbbbbbbbbbbbbbb'' 10 0 = 5" by code_simp
  have "startPosLoop ''aaaaa. bbbbbbbbbbbbbbb'' 10 6 0 [] = None"
    by (rule startPosLoop_stuck) (simp_all add: c)
  then show ?thesis by (simp add: splitIntoChunks_first_def)
qed

text \<open>
  Claim C3 (termination of the configurable splitters). Each of the three splitters that
  take \<open>maxChunkSize\<close> and \<open>overlapSize\<close> has a valid configuration and a non-empty text on
  which its loop never ends: the unit test's 10000 characters under the default sizes
  4000 and 200 for doc-analyzer.js, the overlap test's text with sizes 30 and 10 for
  \<open>LLMService._splitTextIntoChunks\<close>, and a sentence break inside the window with sizes 10
  and 6 for the first definition in part_001.
\<close>

theorem configurable_splitters_never_return:
  "splitIntoChunks_docanalyzer (replicate 10000 CHR ''A'') 4000 200 = None
   \<and> splitTextIntoChunks overlapTestText 30 10 = None
   \<and> splitIntoChunks_first ''aaaaa. bbbbbbbbbbbbbbb'' 10 6 = None"
proof (intro conjI)
  show "splitIntoChunks_docanalyzer (replicate 10000 CHR ''A'') 4000 200 = None"
    by (rule docanalyzer_never_returns) simp_all
  show "splitTextIntoChunks overlapTestText 30 10 = None"
    by (rule overlapTest_diverges)
  show "splitIntoChunks_first ''aaaaa. bbbbbbbbbbbbbbb'' 10 6 = None"
    by (rule first_diverges)
qed

section \<open>The extractor\<close>

lemma prefix_single_drop:
  "prefix [c] (drop k t) \<longleftrightarrow> k < length t \<and> t ! k = c"
proof (cases "k < length t")
  case True
  then have "drop k t = t ! k # drop (Suc k) t" by (simp add: Cons_nth_drop_Suc)
  with True show ?thesis by auto
next
  case False
  then show ?thesis by simp
qed

lemma indexOfFrom_single:
  "indexOfFrom [c] t k =
     (if c \<in> set t then int (k + length (takeWhile (\<lambda>x. x \<noteq> c) t)) else - 1)"
  by (induction t arbitrary: k) auto

lemma lastIndexDown_none:
  "lastIndexDown t needle p = - 1 \<longleftrightarrow> (\<forall>k \<le> p. \<not> prefix needle (drop k t))"
proof (induction p)
  case 0
  show ?case by simp
next
  case (Suc p)
  show ?case
  proof (cases "prefix needle (drop (Suc p) t)")
    case True
    then show ?thesis by auto
  next
    case False
    have "(\<forall>k \<le> Suc p. \<not> prefix needle (drop k t)) \<longleftrightarrow> (\<forall>k \<le> p. \<not> prefix needle (drop k t))"
      using False le_Suc_eq by auto
    with False Suc show ?thesis by simp
  qed
qed

lemma lastIndexDown_found:
  assumes "prefix needle (drop k t)" "k \<le> p"
    and "\<forall>j. k < j \<and> j \<le> p \<longrightarrow> \<not> prefix needle (drop j t)"
  shows "lastIndexDown t needle p = int k"
  using assms
proof (induction p)
  case 0
  then show ?case by simp
next
  case (Suc p)
  show ?case
  proof (cases "k = Suc p")
    case True
    with Suc.prems show ?thesis by simp
  next
    case False
    with Suc.prems have "k \<le> p" by simp
    moreover from False Suc.prems have "\<not> prefix needle (drop (Suc p) t)" by auto
    ultimately show ?thesis using Suc by simp
  qed
qed

lemma extract_found:
  assumes ij: "i < j" "j < length t" "t ! i = CHR ''{''" "\<forall>k<i. t ! k \<noteq> CHR ''{''"
    "t ! j = CHR ''}''" "\<forall>k. j < k \<and> k < length t \<longrightarrow> t ! k \<noteq> CHR ''}''"
  shows "extractJsonFromText t = Some (take (Suc j - i) (drop i t))"
proof -
  have i_lt: "i < length t" using ij by simp
  have tw: "takeWhile (\<lambda>x. x \<noteq> CHR ''{'') t = take i t"
  proof (rule takeWhile_eq_take_P_nth)
    show "\<And>k. k < i \<Longrightarrow> k < length t \<Longrightarrow> t ! k \<noteq> CHR ''{''" using ij by simp
    show "i < length t \<Longrightarrow> \<not> t ! i \<noteq> CHR ''{''" using ij by simp
  qed
  have "CHR ''{'' \<in> set t" using ij i_lt nth_mem by metis
  then have start: "indexOf t ''{'' = int i"
    using i_lt by (simp add: indexOf_def indexOfFrom_single tw)
  have "lastIndexDown t ''}'' (length t) = int j"
    by (rule lastIndexDown_found) (use ij in \<open>auto simp: prefix_single_drop\<close>)
  then have stop: "lastIndexOfEnd t ''}'' = int j" by (simp add: lastIndexOfEnd_def)
  have "t \<noteq> []" using ij by auto
  moreover have "nat (int j + 1) = Suc j" by simp
  then have "substring t (int i) (int j + 1) = take (Suc j - i) (drop i t)"
    using ij by (simp add: substring_def clampIndex_def min_def max_def)
  ultimately show ?thesis
    using ij by (simp add: extractJsonFromText_def start stop)
qed

lemma extract_none:
  assumes "\<not> (\<exists>i j. i < j \<and> j < length t \<and> t ! i = CHR ''{'' \<and> t ! j = CHR ''}'')"
  shows "extractJsonFromText t = None"
proof (cases "CHR ''{'' \<in> set t")
  case False
  then show ?thesis by (simp add: extractJsonFromText_def indexOf_def indexOfFrom_single)
next
  case True
  define i where "i = length (takeWhile (\<lambda>x. x \<noteq> CHR ''{'') t)"
  have "dropWhile (\<lambda>x. x \<noteq> CHR ''{'') t \<noteq> []"
    using True by (simp add: dropWhile_eq_Nil_conv)
  moreover have "length (takeWhile (\<lambda>x. x \<noteq> CHR ''{'') t)
                 + length (dropWhile (\<lambda>x. x \<noteq> CHR ''{'') t) = length t"
    by (metis length_append takeWhile_dropWhile_id)
  ultimately have i_lt: "i < length t" unfolding i_def
    by (cases "dropWhile (\<lambda>x. x \<noteq> CHR ''{'') t") auto
  have ti: "t ! i = CHR ''{''"
    using nth_length_takeWhile [of "\<lambda>x. x \<noteq> CHR ''{''" t] i_lt unfolding i_def by simp
  have start: "indexOf t ''{'' = int i"
    using True by (simp add: indexOf_def indexOfFrom_single i_def)
  have no: "\<forall>j. i < j \<and> j < length t \<longrightarrow> t ! j \<noteq> CHR ''}''"
    using assms ti by blast
  have "lastIndexOfEnd t ''}'' \<le> int i"
  proof (cases "lastIndexDown t ''}'' (length t) = - 1")
    case True
    then show ?thesis by (simp add: lastIndexOfEnd_def)
  next
    case False
    then obtain k where k: "k \<le> length t" "prefix ''}'' (drop k t)"
      using lastIndexDown_none by blast
    then have kl: "k < length t" "t ! k = CHR ''}''" by (simp_all add: prefix_single_drop)
    with no have ki: "k \<le> i" by (meson not_le_imp_less)
    have "lastIndexDown t ''}'' (length t) = lastIndexDown t ''}'' i"
    proof -
      have "\<And>p. i \<le> p \<Longrightarrow> p \<le> length t \<Longrightarrow> lastIndexDown t ''}'' p = lastIndexDown t ''}'' i"
      proof -
        fix p show "i \<le> p \<Longrightarrow> p \<le> length t \<Longrightarrow> lastIndexDown t ''}'' p = lastIndexDown t ''}'' i"
        proof (induction p)
          case 0 then show ?case by simp
        next
          case (Suc p)
          show ?case
          proof (cases "i = Suc p")
            case True then show ?thesis by simp
          next
            case False
            with Suc.prems have ip: "i \<le> p" by simp
            have "\<not> prefix ''}'' (drop (Suc p) t)"
              using no ip by (auto simp: prefix_single_drop)
            with Suc ip show ?thesis by simp
          qed
        qed
      qed
      from this [of "length t"] i_lt show ?thesis by simp
    qed
    moreover have "lastIndexDown t ''}'' i \<le> int i"
      by (induction i) auto
    ultimately show ?thesis by (simp add: lastIndexOfEnd_def)
  qed
  then show ?thesis by (simp add: extractJsonFromText_def start)
qed

lemma scenario3_extract: \<open>extractJsonFromText scenario3 = Some ''{"title":"X"}''\<close>
  by code_simp

lemma scenario3_parse: \<open>JSON_parse ''{"title":"X"}'' = Some (JObj [(''title'', JStr ''X'')])\<close>
  by code_simp

text \<open>
  Claim C8 (the extractor). When the text has a \<open>{\<close> before a \<open>}\<close>, \<open>_extractJsonFromText\<close>
  returns the substring from the first \<open>{\<close> to the last \<open>}\<close>, both included; otherwise it
  returns \<open>null\<close>. On the response of scenario 3 it returns \<open>{"title":"X"}\<close>, which
  \<open>JSON.parse\<close> reads as the object with the one member \<open>title\<close>.
\<close>

theorem extractJsonFromText_first_to_last_brace:
  \<open>(\<forall>i j. i < j \<and> j < length t
           \<and> t ! i = CHR ''{'' \<and> (\<forall>k<i. t ! k \<noteq> CHR ''{'')
           \<and> t ! j = CHR ''}'' \<and> (\<forall>k. j < k \<and> k < length t \<longrightarrow> t ! k \<noteq> CHR ''}'')
         \<longrightarrow> extractJsonFromText t = Some (take (Suc j - i) (drop i t)))
   \<and> (\<not> (\<exists>i j. i < j \<and> j < length t \<and> t ! i = CHR ''{'' \<and> t ! j = CHR ''}'')
         \<longrightarrow> extractJsonFromText t = None)
   \<and> extractJsonFromText scenario3 = Some ''{"title":"X"}''
   \<and> JSON_parse ''{"title":"X"}'' = Some (JObj [(''title'', JStr ''X'')])\<close>
  using extract_found [of _ _ t] extract_none [of t] scenario3_extract scenario3_parse
  by blast

theorem extractJsonFromText_first_to_last_brace_witness:
  \<open>extractJsonFromText ''a{b}c}d{'' = Some ''{b}c}'' \<and> extractJsonFromText ''}no{'' = None\<close>
proof
  let ?s = "''a{b}c}d{''"
  have "\<forall>k. 5 < k \<and> k < length ?s \<longrightarrow> ?s ! k \<noteq> CHR ''}''"
  proof (intro allI impI)
    fix k :: nat
    assume "5 < k \<and> k < length ?s"
    then have "k = 6 \<or> k = 7" by auto
    then show "?s ! k \<noteq> CHR ''}''" by auto
  qed
  moreover have "(1::nat) < 5 \<and> 5 < length ?s \<and> ?s ! 1 = CHR ''{'' \<and> (\<forall>k<1. ?s ! k \<noteq> CHR ''{'')
                 \<and> ?s ! 5 = CHR ''}''"
    by simp
  ultimately have "extractJsonFromText ?s = Some (take (Suc 5 - 1) (drop 1 ?s))"
    using extractJsonFromText_first_to_last_brace [of ?s] by blast
  then show "extractJsonFromText ?s = Some ''{b}c}''" by simp
next
  let ?s = "''}no{''"
  have "\<not> (\<exists>i j. i < j \<and> j < length ?s \<and> ?s ! i = CHR ''{'' \<and> ?s ! j = CHR ''}'')"
  proof
    assume "\<exists>i j. i < j \<and> j < length ?s \<and> ?s ! i = CHR ''{'' \<and> ?s ! j = CHR ''}''"
    then obtain i j where ij: "i < j" "j < length ?s" "?s ! i = CHR ''{''" by blast
    then have "i = 0 \<or> i = 1 \<or> i = 2" by auto
    with ij show False by auto
  qed
  then show "extractJsonFromText ?s = None"
    using extractJsonFromText_first_to_last_brace [of ?s] by blast
qed

section \<open>Coverage of the text by the chunks\<close>

lemma slice_fixed:
  assumes "i < length t"
  shows "slice t (int i) (int i + 4000) = take 4000 (drop i t)"
proof -
  have a: "sliceIndex t (int i) = i" using assms by (simp add: sliceIndex_def)
  have "nat (int i + 4000) = i + 4000" by arith
  then have b: "sliceIndex t (int i + 4000) = min (i + 4000) (length t)"
    by (simp add: sliceIndex_def min_def)
  show ?thesis
  proof (cases "i + 4000 \<le> length t")
    case True
    then show ?thesis by (simp add: slice_def a b)
  next
    case False
    then have "length (drop i t) \<le> 4000" by simp
    then have "take 4000 (drop i t) = drop i t" by simp
    moreover have "take (length t - i) (drop i t) = drop i t" by simp
    ultimately show ?thesis using False by (simp add: slice_def a b min_def)
  qed
qed

lemma fixedSizeLoop_chunks:
  "fixedSizeLoop t i chunks =
     chunks @ map (\<lambda>k. take 4000 (drop (i + 4000 * k) t)) [0 ..< (length t - i + 3999) div 4000]"
proof (induction t i chunks rule: fixedSizeLoop.induct)
  case (1 t i chunks)
  show ?case
  proof (cases "i < length t")
    case False
    then have "(length t - i + 3999) div 4000 = 0" by simp
    with False show ?thesis by (simp add: fixedSizeLoop.simps)
  next
    case True
    let ?f = "\<lambda>k. take 4000 (drop (i + 4000 * k) t)"
    let ?n = "(length t - (i + 4000) + 3999) div 4000"
    have n: "(length t - i + 3999) div 4000 = Suc ?n"
    proof (cases "i + 4000 \<le> length t")
      case le: True
      then have "length t - i + 3999 = (length t - (i + 4000) + 3999) + 4000" by simp
      then show ?thesis by (simp only: div_add_self2)
    next
      case False
      then have z: "length t - (i + 4000) = 0" by simp
      have "(length t - i + 3999) div 4000 = 1"
        by (rule div_nat_eqI) (use True False in simp_all)
      with z show ?thesis by simp
    qed
    have "fixedSizeLoop t i chunks
            = fixedSizeLoop t (i + 4000) (chunks @ [take 4000 (drop i t)])"
      using True by (subst fixedSizeLoop.simps) (simp add: slice_fixed)
    also have "\<dots> = (chunks @ [take 4000 (drop i t)])
                      @ map (\<lambda>k. take 4000 (drop (i + 4000 + 4000 * k) t)) [0 ..< ?n]"
      using "1.IH" [OF True] True by (simp add: slice_fixed)
    also have "\<dots> = chunks @ map ?f [0 ..< Suc ?n]"
    proof -
      have "map ?f [0 ..< Suc ?n] = ?f 0 # map (\<lambda>k. ?f (Suc k)) [0 ..< ?n]"
        by (simp only: map_Suc_upt [symmetric] upt_conv_Cons [of 0 "Suc ?n"] list.map map_map o_def)
      then show ?thesis by (simp add: add.assoc)
    qed
    finally show ?thesis by (simp only: n)
  qed
qed


lemma splitIntoChunks_chunks:
  "splitIntoChunks t = map (\<lambda>k. take 4000 (drop (4000 * k) t)) [0 ..< (length t + 3999) div 4000]"
  by (cases "t = []") (simp_all add: splitIntoChunks_def fixedSizeLoop_chunks)

lemma fixedSizeLoop_concat:
  "concat (fixedSizeLoop t i chunks) = concat chunks @ drop i t"
proof (induction t i chunks rule: fixedSizeLoop.induct)
  case (1 t i chunks)
  show ?case
  proof (cases "i < length t")
    case False
    then show ?thesis by (simp add: fixedSizeLoop.simps)
  next
    case True
    have "take 4000 (drop i t) @ drop (i + 4000) t = drop i t"
      by (metis add.commute append_take_drop_id drop_drop)
    with "1.IH" [OF True] True show ?thesis
      by (subst fixedSizeLoop.simps) (simp add: slice_fixed)
  qed
qed

lemma splitIntoChunks_concat: "concat (splitIntoChunks t) = t"
  by (simp add: splitIntoChunks_def fixedSizeLoop_concat)

lemma splitIntoChunks_length: "length (splitIntoChunks t) = (length t + 3999) div 4000"
  by (simp add: splitIntoChunks_chunks)

lemma chunk_index_in_text:
  assumes "k < (length t + 3999) div 4000"
  shows "4000 * k < length t"
proof (rule ccontr)
  assume "\<not> 4000 * k < length t"
  then have "length t + 3999 < 4000 * Suc k" by simp
  then have "(length t + 3999) div 4000 < Suc k"
    by (simp add: less_mult_imp_div_less mult.commute)
  with assms show False by simp
qed

lemma splitIntoChunks_nth:
  assumes "k < length (splitIntoChunks t)"
  shows "splitIntoChunks t ! k = take 4000 (drop (4000 * k) t)"
    and "splitIntoChunks t ! k \<noteq> []"
    and "length (splitIntoChunks t ! k) = min 4000 (length t - 4000 * k)"
    and "4000 * k < length t"
proof -
  from assms have k: "k < (length t + 3999) div 4000" by (simp add: splitIntoChunks_length)
  then show n: "splitIntoChunks t ! k = take 4000 (drop (4000 * k) t)"
    by (simp add: splitIntoChunks_chunks)
  show lt: "4000 * k < length t" by (rule chunk_index_in_text [OF k])
  then show "splitIntoChunks t ! k \<noteq> []" by (simp add: n)
  show "length (splitIntoChunks t ! k) = min 4000 (length t - 4000 * k)"
    by (simp add: n)
qed

lemma splitIntoChunks_spans:
  "(\<Union>k < length (splitIntoChunks t).
       {4000 * k ..< 4000 * k + length (splitIntoChunks t ! k)}) = {0 ..< length t}"
proof (intro equalityI subsetI)
  fix x
  assume "x \<in> (\<Union>k < length (splitIntoChunks t).
                  {4000 * k ..< 4000 * k + length (splitIntoChunks t ! k)})"
  then obtain k where k: "k < length (splitIntoChunks t)"
    and x: "4000 * k \<le> x" "x < 4000 * k + length (splitIntoChunks t ! k)"
    by auto
  from splitIntoChunks_nth(3,4) [OF k] x show "x \<in> {0 ..< length t}" by simp
next
  fix x
  assume "x \<in> {0 ..< length t}"
  then have x: "x < length t" by simp
  let ?k = "x div 4000"
  have "4000 * ?k \<le> x" by simp
  have kx: "x < 4000 * ?k + 4000"
    using div_mult_mod_eq [of x 4000] mod_less_divisor [of 4000 x] by simp
  have "?k < (length t + 3999) div 4000"
  proof -
    have "x + 3999 < length t + 3999" using x by simp
    have "?k = (4000 * ?k + 3999) div 4000" by simp
    also have "\<dots> \<le> (length t + 3999) div 4000"
      by (rule div_le_mono) (use x \<open>4000 * ?k \<le> x\<close> in simp)
    finally have le: "?k \<le> (length t + 3999) div 4000" .
    show ?thesis
    proof (rule ccontr)
      assume "\<not> ?k < (length t + 3999) div 4000"
      with le have e: "(length t + 3999) div 4000 = ?k" by simp
      have "length t + 3999 < 4000 * ?k + 4000"
        using div_mult_mod_eq [of "length t + 3999" 4000]
          mod_less_divisor [of 4000 "length t + 3999"] e by simp
      with x \<open>4000 * ?k \<le> x\<close> show False by simp
    qed
  qed
  then have k: "?k < length (splitIntoChunks t)" by (simp add: splitIntoChunks_length)
  from splitIntoChunks_nth(3) [OF k] x kx \<open>4000 * ?k \<le> x\<close>
  have "x \<in> {4000 * ?k ..< 4000 * ?k + length (splitIntoChunks t ! ?k)}" by simp
  with k show "x \<in> (\<Union>k < length (splitIntoChunks t).
                  {4000 * k ..< 4000 * k + length (splitIntoChunks t ! k)})"
    by blast
qed


lemma positionLoop_no_overlap_concat:
  assumes run: "positionLoop document maxChunkSize overlapSize position chunks = Some result"
  shows "overlapSize = 0 \<and> 0 < maxChunkSize \<and> 0 \<le> position
           \<and> position \<le> int (length document)
           \<and> concat chunks = take (nat position) document
         \<longrightarrow> concat result = document"
proof (rule positionLoop.raw_induct
    [where P = "\<lambda>d m ov p cs r. ov = 0 \<and> 0 < m \<and> 0 \<le> p \<and> p \<le> int (length d)
                  \<and> concat cs = take (nat p) d \<longrightarrow> concat r = d",
      OF _ run])
  fix f d m ov p cs r
  assume IH: "\<And>d m ov p cs r. f d m ov p cs = Some r \<Longrightarrow>
                 ov = 0 \<and> 0 < m \<and> 0 \<le> p \<and> p \<le> int (length d)
                  \<and> concat cs = take (nat p) d \<longrightarrow> concat r = d"
    and body: "(if p < int (length d)
      then (if min (p + m) (int (length d)) - ov \<le> 0 \<or> m \<le> ov
            then Some (cs @ [substring d p (min (p + m) (int (length d)))])
            else f d m ov (min (p + m) (int (length d)) - ov)
                   (cs @ [substring d p (min (p + m) (int (length d)))]))
      else Some cs) = Some r"
  show "ov = 0 \<and> 0 < m \<and> 0 \<le> p \<and> p \<le> int (length d)
          \<and> concat cs = take (nat p) d \<longrightarrow> concat r = d"
  proof (intro impI, elim conjE)
    assume inv: "ov = 0" "0 < m" "0 \<le> p" "p \<le> int (length d)"
      "concat cs = take (nat p) d"
    show "concat r = d"
    proof (cases "p < int (length d)")
      case False
      with inv body show ?thesis by simp
    next
      case True
      define e where "e = min (p + m) (int (length d))"
      have e: "p < e" "e \<le> int (length d)" "0 < e"
        using True inv by (auto simp: e_def min_def)
      have sub: "substring d p e = take (nat e - nat p) (drop (nat p) d)"
        using e inv by (simp add: substring_take_drop)
      have "take (nat p) d @ take (nat e - nat p) (drop (nat p) d) = take (nat e) d"
        using e inv take_add [of "nat p" "nat e - nat p" d] by simp
      then have c: "concat (cs @ [substring d p e]) = take (nat e) d"
        using inv sub by simp
      have "\<not> (e - ov \<le> 0 \<or> m \<le> ov)" using e inv by simp
      with body True have "f d m ov (e - ov) (cs @ [substring d p e]) = Some r"
        unfolding e_def by simp
      with inv have "f d m ov e (cs @ [substring d p e]) = Some r" by simp
      from IH [OF this] inv e c show ?thesis by simp
    qed
  qed
qed

lemma docanalyzer_returned_chunks_concat:
  assumes cfg: "0 < maxChunkSize" "0 \<le> overlapSize" "overlapSize < maxChunkSize"
    and ret: "splitIntoChunks_docanalyzer document maxChunkSize overlapSize = Some chunks"
  shows "concat chunks = document"
proof (cases "int (length document) \<le> maxChunkSize")
  case True
  with ret show ?thesis by (auto simp: splitIntoChunks_docanalyzer_def)
next
  case False
  then have long: "maxChunkSize < int (length document)" by simp
  have "overlapSize = 0"
  proof (rule ccontr)
    assume "overlapSize \<noteq> 0"
    with cfg have "0 < overlapSize" by simp
    from docanalyzer_never_returns [OF this cfg(3) long] ret show False by simp
  qed
  moreover from False ret
  have "positionLoop document maxChunkSize overlapSize 0 [] = Some chunks"
    by (simp add: splitIntoChunks_docanalyzer_def)
  ultimately show ?thesis
    using positionLoop_no_overlap_concat [of document maxChunkSize overlapSize 0 "[]" chunks] cfg
    by simp
qed

text \<open>
  The splitter that \<open>analyzeDocument\<close> of part_001 runs cuts the text into the consecutive
  pieces \<open>[4000 k, 4000 k + 4000)\<close>, the last one ending with the text: chunk \<open>k\<close> is that
  slice and is not empty, the chunks in order spell the text, and their spans together
  are exactly \<open>[0, length t)\<close>.
\<close>

lemma fixed_size_chunks_cover_text:
  "concat (splitIntoChunks t) = t
   \<and> (\<forall>k < length (splitIntoChunks t).
          splitIntoChunks t ! k = take 4000 (drop (4000 * k) t) \<and> splitIntoChunks t ! k \<noteq> [])
   \<and> (\<Union>k < length (splitIntoChunks t).
          {4000 * k ..< 4000 * k + length (splitIntoChunks t ! k)}) = {0 ..< length t}"
proof (intro conjI allI impI)
  show "concat (splitIntoChunks t) = t" by (rule splitIntoChunks_concat)
next
  fix k assume "k < length (splitIntoChunks t)"
  then show "splitIntoChunks t ! k = take 4000 (drop (4000 * k) t)"
    and "splitIntoChunks t ! k \<noteq> []"
    by (rule splitIntoChunks_nth(1), rule splitIntoChunks_nth(2))
next
  show "(\<Union>k < length (splitIntoChunks t).
          {4000 * k ..< 4000 * k + length (splitIntoChunks t ! k)}) = {0 ..< length t}"
    by (rule splitIntoChunks_spans)
qed

text \<open>
  Claim C7 (coverage). The splitter of doc-analyzer.js, which takes the configuration,
  returns no chunks at all for a text of 4001 characters under its default sizes 4000 and
  200: behind the chunk that ends the text the next position is again below the length,
  and the loop never ends. No span of the text is covered by a returned chunk.
\<close>

theorem docanalyzer_returns_no_chunks_to_cover:
  "splitIntoChunks_docanalyzer (replicate 4001 (CHR ''x'')) 4000 200 = None"
  by (rule docanalyzer_never_returns) simp_all

section \<open>The cut rule of the first splitter\<close>

lemma lastIndexDown_cases:
  "(lastIndexDown t brk c = - 1 \<and> (\<forall>k \<le> c. \<not> prefix brk (drop k t)))
   \<or> (\<exists>k \<le> c. lastIndexDown t brk c = int k \<and> prefix brk (drop k t)
         \<and> (\<forall>j. k < j \<and> j \<le> c \<longrightarrow> \<not> prefix brk (drop j t)))"
proof (cases "lastIndexDown t brk c = - 1")
  case True
  then show ?thesis using lastIndexDown_none [of t brk c] by simp
next
  case False
  then have "\<exists>k \<le> c. prefix brk (drop k t)" using lastIndexDown_none [of t brk c] by simp
  then obtain k0 where k0: "k0 \<le> c" "prefix brk (drop k0 t)" by blast
  define k where "k = (GREATEST k. k \<le> c \<and> prefix brk (drop k t))"
  have gk: "k \<le> c \<and> prefix brk (drop k t)"
    unfolding k_def by (rule GreatestI_nat [where b = c]) (use k0 in auto)
  have mx: "\<And>j. j \<le> c \<and> prefix brk (drop j t) \<Longrightarrow> j \<le> k"
    unfolding k_def by (rule Greatest_le_nat [where b = c]) auto
  have "\<forall>j. k < j \<and> j \<le> c \<longrightarrow> \<not> prefix brk (drop j t)"
    using mx by (meson not_le)
  with gk have "lastIndexDown t brk c = int k"
    using lastIndexDown_found [of brk k t c] by simp
  with gk \<open>\<forall>j. k < j \<and> j \<le> c \<longrightarrow> \<not> prefix brk (drop j t)\<close> show ?thesis by blast
qed

lemma nearestBreak_unique:
  assumes "nearestBreak t brk pos p" "nearestBreak t brk pos p'"
  shows "p = p'"
proof (rule ccontr)
  assume ne: "p \<noteq> p'"
  show False
  proof (cases "p < p'")
    case True
    with assms have "p' \<in> set [p + 1 .. pos]" by (simp add: nearestBreak_def)
    with assms show False unfolding nearestBreak_def by blast
  next
    case False
    with ne have "p' < p" by simp
    with assms have "p \<in> set [p' + 1 .. pos]" by (simp add: nearestBreak_def)
    with assms show False unfolding nearestBreak_def by blast
  qed
qed

lemma lastIndexOf_nearest:
  assumes pos: "0 \<le> pos" and brk: "brk \<noteq> []"
  shows "(lastIndexOf t brk pos = - 1 \<and> (\<forall>p. \<not> nearestBreak t brk pos p))
         \<or> nearestBreak t brk pos (lastIndexOf t brk pos)"
proof -
  define c where "c = clampIndex t pos"
  have c: "c = min (nat pos) (length t)"
    using pos by (simp add: c_def clampIndex_def min_def)
  have beyond: "\<not> prefix brk (drop j t)" if "length t \<le> j" for j
    using that brk by simp
  have L: "lastIndexOf t brk pos = lastIndexDown t brk c"
    by (simp add: lastIndexOf_def c_def)
  from lastIndexDown_cases [of t brk c]
  show ?thesis
  proof (elim disjE conjE exE)
    assume none: "lastIndexDown t brk c = - 1" "\<forall>k \<le> c. \<not> prefix brk (drop k t)"
    have "\<not> nearestBreak t brk pos p" for p
    proof
      assume n: "nearestBreak t brk pos p"
      then have p: "0 \<le> p" "p \<le> pos" "prefix brk (drop (nat p) t)"
        by (simp_all add: nearestBreak_def)
      from p(3) beyond have "nat p < length t" by (meson not_le)
      with p have "nat p \<le> c" by (simp add: c)
      with none p show False by blast
    qed
    with none L show ?thesis by simp
  next
    fix k
    assume k: "k \<le> c" "lastIndexDown t brk c = int k" "prefix brk (drop k t)"
      "\<forall>j. k < j \<and> j \<le> c \<longrightarrow> \<not> prefix brk (drop j t)"
    have "\<not> prefix brk (drop (nat q) t)" if "q \<in> set [int k + 1 .. pos]" for q
    proof (cases "nat q \<le> c")
      case True
      moreover from that have "k < nat q" by auto
      ultimately show ?thesis using k(4) by blast
    next
      case False
      moreover from that have "nat q \<le> nat pos" by auto
      ultimately have "length t \<le> nat q" by (simp add: c)
      then show ?thesis by (rule beyond)
    qed
    moreover have "int k \<le> pos" using k(1) pos unfolding c by linarith
    ultimately have "nearestBreak t brk pos (int k)"
      using k by (simp add: nearestBreak_def)
    with k L show ?thesis by simp
  qed
qed

lemma accepted_iff_not_rejected:
  "accepted p startPos maxChunkSize \<longleftrightarrow> \<not> rejected p startPos (startPos + maxChunkSize) maxChunkSize"
  by (auto simp: accepted_def rejected_def)

lemma chooseSplitPos_paragraph:
  assumes "0 \<le> startPos" "0 < maxChunkSize"
    and "nearestBreak t paragraphBreak (startPos + maxChunkSize) p" "accepted p startPos maxChunkSize"
  shows "chooseSplitPos t maxChunkSize startPos = p"
proof -
  have "lastIndexOf t paragraphBreak (startPos + maxChunkSize) = p"
    using lastIndexOf_nearest [of "startPos + maxChunkSize" paragraphBreak t] assms
      nearestBreak_unique [of t paragraphBreak "startPos + maxChunkSize"]
    by (auto simp: paragraphBreak_def)
  with assms(4) show ?thesis
    by (simp add: chooseSplitPos_def Let_def accepted_iff_not_rejected)
qed

lemma no_accepted_rejected:
  assumes "0 \<le> startPos" "0 < maxChunkSize" "brk \<noteq> []"
    and "\<not> (\<exists>p. nearestBreak t brk (startPos + maxChunkSize) p \<and> accepted p startPos maxChunkSize)"
  shows "rejected (lastIndexOf t brk (startPos + maxChunkSize)) startPos
           (startPos + maxChunkSize) maxChunkSize"
proof -
  have "(lastIndexOf t brk (startPos + maxChunkSize) = - 1
          \<and> (\<forall>p. \<not> nearestBreak t brk (startPos + maxChunkSize) p))
        \<or> nearestBreak t brk (startPos + maxChunkSize)
             (lastIndexOf t brk (startPos + maxChunkSize))"
    by (rule lastIndexOf_nearest) (use assms in simp_all)
  then show ?thesis
  proof (elim disjE conjE)
    assume "lastIndexOf t brk (startPos + maxChunkSize) = - 1"
    with assms(1) show ?thesis by (simp add: rejected_def)
  next
    assume "nearestBreak t brk (startPos + maxChunkSize)
              (lastIndexOf t brk (startPos + maxChunkSize))"
    with assms(4) show ?thesis by (auto simp: accepted_iff_not_rejected)
  qed
qed

lemma chooseSplitPos_sentence:
  assumes "0 \<le> startPos" "0 < maxChunkSize"
    and "\<not> (\<exists>p. nearestBreak t paragraphBreak (startPos + maxChunkSize) p
               \<and> accepted p startPos maxChunkSize)"
    and "nearestBreak t sentenceBreak (startPos + maxChunkSize) q" "accepted q startPos maxChunkSize"
  shows "chooseSplitPos t maxChunkSize startPos = q"
proof -
  have r: "rejected (lastIndexOf t paragraphBreak (startPos + maxChunkSize)) startPos
             (startPos + maxChunkSize) maxChunkSize"
    by (rule no_accepted_rejected) (use assms in \<open>simp_all add: paragraphBreak_def\<close>)
  have "lastIndexOf t sentenceBreak (startPos + maxChunkSize) = q"
    using lastIndexOf_nearest [of "startPos + maxChunkSize" sentenceBreak t] assms
      nearestBreak_unique [of t sentenceBreak "startPos + maxChunkSize"]
    by (auto simp: sentenceBreak_def)
  with r assms(5) show ?thesis
    by (simp add: chooseSplitPos_def Let_def accepted_iff_not_rejected)
qed

lemma chooseSplitPos_hard:
  assumes "0 \<le> startPos" "0 < maxChunkSize"
    and "\<not> (\<exists>p. nearestBreak t paragraphBreak (startPos + maxChunkSize) p
               \<and> accepted p startPos maxChunkSize)"
    and "\<not> (\<exists>q. nearestBreak t sentenceBreak (startPos + maxChunkSize) q
               \<and> accepted q startPos maxChunkSize)"
  shows "chooseSplitPos t maxChunkSize startPos = startPos + maxChunkSize"
proof -
  have r1: "rejected (lastIndexOf t paragraphBreak (startPos + maxChunkSize)) startPos
             (startPos + maxChunkSize) maxChunkSize"
    by (rule no_accepted_rejected) (use assms in \<open>simp_all add: paragraphBreak_def\<close>)
  have r2: "rejected (lastIndexOf t sentenceBreak (startPos + maxChunkSize)) startPos
             (startPos + maxChunkSize) maxChunkSize"
    by (rule no_accepted_rejected) (use assms in \<open>simp_all add: sentenceBreak_def\<close>)
  from r1 r2 show ?thesis by (simp add: chooseSplitPos_def Let_def)
qed


text \<open>
  Claim C6 (cut rule). In the first definition of \<open>_splitIntoChunks\<close> in part_001 a chunk
  that does not reach the end of the text is cut at the nearest paragraph break before the
  window end if that break is accepted, else at the nearest sentence end if that one is
  accepted, else at the window end \<open>startPos + maxChunkSize\<close>; the loop pushes the text
  from the chunk start to that cut.
\<close>

theorem first_definition_cut_preference:
  assumes "0 \<le> startPos" "0 < maxChunkSize"
  shows "(\<forall>p. nearestBreak t paragraphBreak (startPos + maxChunkSize) p
              \<and> accepted p startPos maxChunkSize
            \<longrightarrow> chooseSplitPos t maxChunkSize startPos = p)
     \<and> (\<not> (\<exists>p. nearestBreak t paragraphBreak (startPos + maxChunkSize) p
                  \<and> accepted p startPos maxChunkSize)
          \<longrightarrow> (\<forall>q. nearestBreak t sentenceBreak (startPos + maxChunkSize) q
                     \<and> accepted q startPos maxChunkSize
                   \<longrightarrow> chooseSplitPos t maxChunkSize startPos = q))
     \<and> (\<not> (\<exists>p. nearestBreak t paragraphBreak (startPos + maxChunkSize) p
                  \<and> accepted p startPos maxChunkSize)
          \<and> \<not> (\<exists>q. nearestBreak t sentenceBreak (startPos + maxChunkSize) q
                  \<and> accepted q startPos maxChunkSize)
          \<longrightarrow> chooseSplitPos t maxChunkSize startPos = startPos + maxChunkSize)
     \<and> (startPos + maxChunkSize < int (length t)
          \<longrightarrow> startPosLoop t maxChunkSize overlapSize startPos chunks
              = startPosLoop t maxChunkSize overlapSize
                  (max startPos (chooseSplitPos t maxChunkSize startPos - overlapSize))
                  (chunks @ [substring t startPos (chooseSplitPos t maxChunkSize startPos)]))"
proof (intro conjI allI impI)
  fix p
  assume "nearestBreak t paragraphBreak (startPos + maxChunkSize) p
            \<and> accepted p startPos maxChunkSize"
  then show "chooseSplitPos t maxChunkSize startPos = p"
    using chooseSplitPos_paragraph [OF assms] by blast
next
  fix q
  assume "\<not> (\<exists>p. nearestBreak t paragraphBreak (startPos + maxChunkSize) p
                 \<and> accepted p startPos maxChunkSize)"
    and "nearestBreak t sentenceBreak (startPos + maxChunkSize) q
           \<and> accepted q startPos maxChunkSize"
  then show "chooseSplitPos t maxChunkSize startPos = q"
    using chooseSplitPos_sentence [OF assms] by blast
next
  assume "\<not> (\<exists>p. nearestBreak t paragraphBreak (startPos + maxChunkSize) p
                 \<and> accepted p startPos maxChunkSize)
          \<and> \<not> (\<exists>q. nearestBreak t sentenceBreak (startPos + maxChunkSize) q
                 \<and> accepted q startPos maxChunkSize)"
  then show "chooseSplitPos t maxChunkSize startPos = startPos + maxChunkSize"
    using chooseSplitPos_hard [OF assms] by blast
next
  assume "startPos + maxChunkSize < int (length t)"
  with assms show "startPosLoop t maxChunkSize overlapSize startPos chunks
              = startPosLoop t maxChunkSize overlapSize
                  (max startPos (chooseSplitPos t maxChunkSize startPos - overlapSize))
                  (chunks @ [substring t startPos (chooseSplitPos t maxChunkSize startPos)])"
    by (subst startPosLoop.simps) simp
qed

lemma nearestBreak_range: "nearestBreak t brk pos p \<Longrightarrow> p \<in> set [0 .. pos]"
  by (simp add: nearestBreak_def)

lemma cutRuleText_facts:
  "nearestBreak cutRuleText paragraphBreak 12 8" "accepted 8 0 12"
  "\<not> (\<exists>p \<in> set [0 .. 15]. nearestBreak cutRuleText paragraphBreak 15 p \<and> accepted p 10 5)"
  "nearestBreak cutRuleText sentenceBreak 15 15" "accepted 15 10 5"
  "\<not> (\<exists>p \<in> set [0 .. 2]. nearestBreak cutRuleText paragraphBreak 2 p)"
  "\<not> (\<exists>q \<in> set [0 .. 2]. nearestBreak cutRuleText sentenceBreak 2 q)"
  by code_simp+

theorem first_definition_cut_preference_witness:
  "chooseSplitPos cutRuleText 12 0 = 8
   \<and> chooseSplitPos cutRuleText 5 10 = 15
   \<and> chooseSplitPos cutRuleText 2 0 = 2"
proof (intro conjI)
  show "chooseSplitPos cutRuleText 12 0 = 8"
  proof (rule first_definition_cut_preference
      [of 0 12 cutRuleText, THEN conjunct1, rule_format, of 8])
    show "nearestBreak cutRuleText paragraphBreak (0 + 12) 8 \<and> accepted 8 0 12"
      using cutRuleText_facts(1,2) by simp
  qed simp_all
next
  have np: "\<not> (\<exists>p. nearestBreak cutRuleText paragraphBreak (10 + 5) p \<and> accepted p 10 5)"
    using cutRuleText_facts(3) nearestBreak_range [of cutRuleText paragraphBreak 15]
    by (simp only: numeral_plus_numeral semiring_norm) blast
  show "chooseSplitPos cutRuleText 5 10 = 15"
  proof (rule first_definition_cut_preference
      [of 10 5 cutRuleText, THEN conjunct2, THEN conjunct1, rule_format, of 15])
    show "\<not> (\<exists>p. nearestBreak cutRuleText paragraphBreak (10 + 5) p \<and> accepted p 10 5)"
      by (rule np)
    show "nearestBreak cutRuleText sentenceBreak (10 + 5) 15 \<and> accepted 15 10 5"
      using cutRuleText_facts(4,5) by simp
  qed simp_all
next
  have np: "\<not> (\<exists>p. nearestBreak cutRuleText paragraphBreak (0 + 2) p \<and> accepted p 0 2)"
    using cutRuleText_facts(6) nearestBreak_range [of cutRuleText paragraphBreak 2]
    by (simp only: add_0) blast
  have nq: "\<not> (\<exists>q. nearestBreak cutRuleText sentenceBreak (0 + 2) q \<and> accepted q 0 2)"
    using cutRuleText_facts(7) nearestBreak_range [of cutRuleText sentenceBreak 2]
    by (simp only: add_0) blast
  have "chooseSplitPos cutRuleText 2 0 = 0 + 2"
  proof (rule first_definition_cut_preference
      [of 0 2 cutRuleText, THEN conjunct2, THEN conjunct2, THEN conjunct1, rule_format])
    show "\<not> (\<exists>p. nearestBreak cutRuleText paragraphBreak (0 + 2) p \<and> accepted p 0 2)
          \<and> \<not> (\<exists>q. nearestBreak cutRuleText sentenceBreak (0 + 2) q \<and> accepted q 0 2)"
      using np nq by (rule conjI)
  qed simp_all
  then show "chooseSplitPos cutRuleText 2 0 = 2" by simp
qed

lemma not_prefix_replicate:
  "c \<noteq> b \<Longrightarrow> \<not> prefix (c # cs) (replicate n b)"
  by (cases n) auto

lemma nearestBreak_padded:
  assumes b: "b \<noteq> CHR 0x0A"
  shows "nearestBreak (replicate n a @ paragraphBreak @ replicate (Suc m) b) paragraphBreak
           (int n + int k) (int n)"
proof -
  let ?t = "replicate n a @ paragraphBreak @ replicate (Suc m) b"
  have here: "prefix paragraphBreak (drop n ?t)" by simp
  have later: "\<not> prefix paragraphBreak (drop (nat q) ?t)"
    if q: "q \<in> set [int n + 1 .. int n + int k]" for q
  proof -
    from q have "n + 1 \<le> nat q" by auto
    then obtain j where j: "nat q = n + 1 + j" using le_Suc_ex by blast
    have d: "drop (nat q) ?t = drop j (CHR 0x0A # replicate (Suc m) b)"
      unfolding j by (simp add: paragraphBreak_def)
    show ?thesis
    proof (cases j)
      case 0
      with d b show ?thesis by (simp add: paragraphBreak_def)
    next
      case (Suc i)
      have "drop (Suc i) (CHR 0x0A # replicate (Suc m) b) = replicate (Suc m - i) b"
        by (simp only: drop_Suc_Cons drop_replicate)
      with d Suc have "drop (nat q) ?t = replicate (Suc m - i) b" by (simp only:)
      with b show ?thesis by (simp add: paragraphBreak_def not_prefix_replicate)
    qed
  qed
  from here later show ?thesis by (simp add: nearestBreak_def)
qed

lemma paragraphAt3000_nearest: "nearestBreak paragraphAt3000 paragraphBreak 4000 3000"
proof -
  have s: "Suc 1999 = 2000" by simp
  have e: "paragraphAt3000
          = replicate 3000 (CHR ''a'') @ paragraphBreak @ replicate (Suc 1999) (CHR ''b'')"
    unfolding paragraphAt3000_def by (simp only: s)
  have n: "nearestBreak
             (replicate 3000 (CHR ''a'') @ paragraphBreak @ replicate (Suc 1999) (CHR ''b''))
             paragraphBreak (int 3000 + int 1000) (int 3000)"
    by (rule nearestBreak_padded) simp
  from n have "nearestBreak paragraphAt3000 paragraphBreak (int 3000 + int 1000) (int 3000)"
    by (simp only: e [symmetric])
  then show ?thesis by simp
qed

lemma paragraphAt3000_length: "length paragraphAt3000 = 5002"
  by (simp add: paragraphAt3000_def paragraphBreak_def)

text \<open>
  The splitter that runs cuts at 4000 where the rule of claim C6 chooses the accepted
  paragraph break at 3000; \<open>LLMService._splitTextIntoChunks\<close> cuts at a paragraph break
  that the rule rejects for lying more than half a window before the hard cut.
\<close>

theorem cut_rule_counterexample:
  "4000 < length paragraphAt3000
   \<and> nearestBreak paragraphAt3000 paragraphBreak 4000 3000 \<and> accepted 3000 0 4000
   \<and> splitIntoChunks paragraphAt3000 ! 0 = take 4000 paragraphAt3000
   \<and> take 4000 paragraphAt3000 \<noteq> take 3000 paragraphAt3000
   \<and> nearestBreak earlyBreakText paragraphBreak 10 1 \<and> \<not> accepted 1 0 10
   \<and> chunkEndIndex earlyBreakText 10 0 = 1"
proof (intro conjI)
  show "4000 < length paragraphAt3000"
    by (simp add: paragraphAt3000_length)
  show "nearestBreak paragraphAt3000 paragraphBreak 4000 3000"
    by (rule paragraphAt3000_nearest)
  show "accepted 3000 0 4000" by (simp add: accepted_def)
  have "0 < length (splitIntoChunks paragraphAt3000)"
    by (simp add: splitIntoChunks_length paragraphAt3000_length)
  from splitIntoChunks_nth(1) [OF this]
  show "splitIntoChunks paragraphAt3000 ! 0 = take 4000 paragraphAt3000" by simp
  have "length (take 4000 paragraphAt3000) \<noteq> length (take 3000 paragraphAt3000)"
    by (simp add: paragraphAt3000_length)
  then show "take 4000 paragraphAt3000 \<noteq> take 3000 paragraphAt3000" by metis
  show "nearestBreak earlyBreakText paragraphBreak 10 1" by code_simp
  show "\<not> accepted 1 0 10" by (simp add: accepted_def)
  show "chunkEndIndex earlyBreakText 10 0 = 1" by code_simp
qed

section \<open>The pipeline, step by step\<close>

lemma trim_Nil [simp]: "trim [] = []"
  by (simp add: trim_def)

lemma analyzeChunkWithLLM_outcome:
  "analyzeChunkWithLLM service chunk log
     = (Inr (chunkOutcome service chunk log), log @ [ChunkCall chunk])"
proof (cases "analyzeChunkBody (service log (ChunkCall chunk))")
  case (Inl e)
  then show ?thesis
    by (cases e) (simp add: analyzeChunkWithLLM_def chunkOutcome_def query_def)
next
  case (Inr r)
  then show ?thesis
    by (simp add: analyzeChunkWithLLM_def chunkOutcome_def query_def)
qed

lemma analyzeChunks_outcomes:
  "analyzeChunks service chunks log
     = (Inr (chunkOutcomes service chunks log), log @ map ChunkCall chunks)"
  by (induction chunks arbitrary: log) (simp_all add: analyzeChunkWithLLM_outcome)

lemma chunkOutcomes_length [simp]: "length (chunkOutcomes service chunks log) = length chunks"
  by (induction chunks arbitrary: log) simp_all

lemma chunkOutcomes_nth:
  "k < length chunks \<Longrightarrow>
     chunkOutcomes service chunks log ! k
       = chunkOutcome service (chunks ! k) (log @ map ChunkCall (take k chunks))"
proof (induction chunks arbitrary: log k)
  case Nil
  then show ?case by simp
next
  case (Cons c cs)
  then show ?case by (cases k) simp_all
qed

lemma testLLMResponse_log: "snd (testLLMResponse service log) = log @ [TestCall]"
  by (auto simp: testLLMResponse_def query_def split: sum.splits)

lemma analyzeDocument_invalid:
  "\<not> validContent doc \<Longrightarrow>
     analyzeDocument service doc analysisType log
       = (failure ''Invalid or binary content detected'', log)"
  by (auto simp: analyzeDocument_def analyzeDocumentBody_def validContent_def Let_def)

lemma analyzeDocument_single:
  assumes "validContent doc" "length (documentChunks doc) = 1"
  shows "analyzeDocument service doc analysisType log
     = (\<lparr>success = True,
         data = ChunkData (chunkOutcome service (hd (documentChunks doc)) (log @ [TestCall])),
         error = None,
         meta = Some \<lparr>analysisTypeField = analysisType, chunkCount = 1,
                      documentLength = length (cleanTextContent (extractContent doc)),
                      documentName = None\<rparr>\<rparr>,
        log @ [TestCall, ChunkCall (hd (documentChunks doc))])"
proof -
  obtain c where c: "documentChunks doc = [c]"
    using assms(2) by (cases "documentChunks doc") auto
  obtain b where t: "testLLMResponse service log = (b, log @ [TestCall])"
    using testLLMResponse_log [of service log] by (cases "testLLMResponse service log") auto
  from assms(1) c t show ?thesis
    by (simp add: analyzeDocument_def analyzeDocumentBody_def validContent_def Let_def
        documentChunks_def analyzeChunks_outcomes)
qed

lemma analyzeDocument_multi:
  assumes "validContent doc" "length (documentChunks doc) \<noteq> 1"
  shows "analyzeDocument service doc analysisType log
     = (case synthesizeResults service
               (chunkOutcomes service (documentChunks doc) (log @ [TestCall]))
               analysisType (cleanTextContent (extractContent doc))
               (log @ [TestCall] @ map ChunkCall (documentChunks doc)) of
          (Inl (Error message), log') \<Rightarrow> (failure message, log')
        | (Inr v, log') \<Rightarrow> (multiEnvelope doc analysisType v, log'))"
proof -
  obtain b where t: "testLLMResponse service log = (b, log @ [TestCall])"
    using testLLMResponse_log [of service log] by (cases "testLLMResponse service log") auto
  from assms t show ?thesis
    by (auto simp: analyzeDocument_def analyzeDocumentBody_def validContent_def Let_def
        documentChunks_def analyzeChunks_outcomes multiEnvelope_def
        split: prod.splits sum.splits exn.splits)
qed

section \<open>The two concrete documents\<close>

lemma spaced_Suc: "spaced (Suc n) = CHR ''a'' # CHR '' '' # spaced n"
  by (simp add: spaced_def)

lemma spaced_0: "spaced 0 = []"
  by (simp add: spaced_def)

lemma spaced_length: "length (spaced n) = 2 * n"
  by (induction n) (simp_all add: spaced_Suc spaced_0)

lemma spaced_set: "set (spaced n) \<subseteq> {CHR ''a'', CHR '' ''}"
  by (induction n) (auto simp: spaced_Suc spaced_0)

lemma spaced_head: "takeWhile P (spaced n) = [] \<and> dropWhile P (spaced n) = spaced n"
  if "\<not> P (CHR ''a'')"
  using that by (cases n) (simp_all add: spaced_Suc spaced_0)

lemma spaced_filter: "filter (\<lambda>c. \<not> isStrippedControl c) (spaced n) = spaced n"
proof -
  have "\<forall>c \<in> set (spaced n). \<not> isStrippedControl c"
    using spaced_set [of n] by (auto simp: isStrippedControl_def)
  then show ?thesis by simp
qed

lemma spaced_replaceLongRuns: "replaceLongRuns (spaced n) = spaced n"
  by (induction n) (simp_all add: spaced_Suc spaced_0 isSpace_def)

lemma spaced_limitRepeats: "limitRepeats (spaced n) = spaced n"
proof (induction n)
  case 0
  show ?case by (simp add: spaced_0)
next
  case (Suc n)
  have "takeWhile (\<lambda>x. x = CHR '' '') (spaced n) = []"
    using spaced_head [of "\<lambda>x. x = CHR '' ''" n] by simp
  with Suc show ?case by (simp add: spaced_Suc isLineTerminator_def)
qed

lemma spaced_collapseWhitespace: "collapseWhitespace (spaced n) = spaced n"
proof (induction n)
  case 0
  show ?case by (simp add: spaced_0)
next
  case (Suc n)
  have "takeWhile isSpace (spaced n) = [] \<and> dropWhile isSpace (spaced n) = spaced n"
    by (rule spaced_head) (simp add: isSpace_def)
  with Suc show ?case by (simp add: spaced_Suc isSpace_def)
qed

lemma spaced_clean: "cleanTextContent (spaced n) = spaced n"
  by (simp add: cleanTextContent_def spaced_filter spaced_replaceLongRuns
      spaced_limitRepeats spaced_collapseWhitespace)

lemma indexOfFrom_found_set:
  "0 \<le> indexOfFrom needle t k \<Longrightarrow> needle \<noteq> [] \<Longrightarrow> set needle \<subseteq> set t"
proof (induction t arbitrary: k)
  case Nil
  then show ?case by simp
next
  case (Cons c cs)
  show ?case
  proof (cases "prefix needle (c # cs)")
    case True
    then show ?thesis by (rule set_mono_prefix)
  next
    case False
    with Cons have "set needle \<subseteq> set cs" by simp
    then show ?thesis by auto
  qed
qed

lemma substring_set: "set (substring s a b) \<subseteq> set s"
  by (auto simp: substring_def Let_def dest: in_set_takeD in_set_dropD)

lemma spaced_not_binary: "0 < n \<Longrightarrow> \<not> isBinaryContent (spaced n)"
proof -
  assume n: "0 < n"
  have ne: "spaced n \<noteq> []" using n spaced_length [of n] by auto
  have "\<forall>c \<in> set (take (min (length (spaced n)) 1000) (spaced n)). \<not> isNonPrintable c"
    using spaced_set [of n] by (auto simp: isNonPrintable_def dest!: in_set_takeD)
  then have f: "filter isNonPrintable (take (min (length (spaced n)) 1000) (spaced n)) = []"
    by (simp add: filter_empty_conv)
  have "\<not> includes_str (substring (spaced n) 0 20) sig" if "sig \<in> set binarySignatures" for sig
  proof
    assume "includes_str (substring (spaced n) 0 20) sig"
    moreover from that have "sig \<noteq> []" by (auto simp: binarySignatures_def)
    ultimately have "set sig \<subseteq> set (substring (spaced n) 0 20)"
      using indexOfFrom_found_set by (simp add: includes_str_def indexOf_def)
    with substring_set spaced_set have "set sig \<subseteq> {CHR ''a'', CHR '' ''}" by blast
    with that show False by (auto simp: binarySignatures_def)
  qed
  with ne f show ?thesis by (simp add: isBinaryContent_def Let_def)
qed

lemma twoChunkDoc_valid: "validContent twoChunkDoc"
  using spaced_not_binary [of 2001] spaced_length [of 2001]
  by (auto simp: validContent_def twoChunkDoc_def)

lemma twoChunkDoc_chunks:
  "documentChunks twoChunkDoc = [take 4000 (spaced 2001), take 4000 (drop 4000 (spaced 2001))]"
proof -
  have "(length (spaced 2001) + 3999) div 4000 = 2" by (simp add: spaced_length)
  moreover have "[0 ..< 2] = [0, Suc 0]" by (simp add: upt_rec)
  ultimately show ?thesis
    by (simp add: documentChunks_def twoChunkDoc_def spaced_clean splitIntoChunks_chunks)
qed

lemma shortDoc_valid: "validContent shortDoc"
  by code_simp

lemma shortDoc_chunks: "documentChunks shortDoc = [''short doc'']"
  by code_simp

section \<open>Faults of a single chunk\<close>

lemma titleReply_outcome:
  "analyzeChunkBody (Inr titleReply) = Inr (ChunkOk (JObj [(''title'', JStr ''X'')]) False titleReply)"
  by code_simp

lemma merge_replies:
  "JSON_parse ''null'' = Some JNull"
  "JSON_parse ''Here is the merged analysis.'' = None"
  "trim ''  '' = []"
  by code_simp+

text \<open>
  Claim C5 (faults of one chunk). \<open>_analyzeChunkWithLLM\<close> never throws: a query that
  throws is caught inside it and becomes the failed result with the exception's message
  and empty raw content; a blank response becomes the failed result \<open>Empty response from
  LLM\<close>; a response without a JSON region, or whose region neither parses nor repairs,
  becomes the failed result \<open>JSON parsing failed\<close> carrying the response.
\<close>

theorem chunk_analyzer_never_throws:
  "(\<exists>result. analyzeChunkWithLLM service chunk log = (Inr result, log @ [ChunkCall chunk]))
   \<and> (\<forall>message. service log (ChunkCall chunk) = Inl (Error message)
         \<longrightarrow> analyzeChunkWithLLM service chunk log
               = (Inr (ChunkFailed message []), log @ [ChunkCall chunk]))
   \<and> (\<forall>response. service log (ChunkCall chunk) = Inr response \<and> trim response = []
         \<longrightarrow> analyzeChunkWithLLM service chunk log
               = (Inr (ChunkFailed ''Empty response from LLM'' []), log @ [ChunkCall chunk]))
   \<and> (\<forall>response. service log (ChunkCall chunk) = Inr response \<and> trim response \<noteq> []
           \<and> extractJsonFromText response = None
         \<longrightarrow> analyzeChunkWithLLM service chunk log
               = (Inr (ChunkFailed ''JSON parsing failed'' response), log @ [ChunkCall chunk]))
   \<and> (\<forall>response jsonContent.
           service log (ChunkCall chunk) = Inr response \<and> trim response \<noteq> []
           \<and> extractJsonFromText response = Some jsonContent
           \<and> JSON_parse jsonContent = None \<and> \<not> truthy (attemptJsonFix jsonContent)
         \<longrightarrow> analyzeChunkWithLLM service chunk log
               = (Inr (ChunkFailed ''JSON parsing failed'' response), log @ [ChunkCall chunk]))"
proof (intro conjI allI impI)
  show "\<exists>result. analyzeChunkWithLLM service chunk log = (Inr result, log @ [ChunkCall chunk])"
    by (simp add: analyzeChunkWithLLM_outcome)
next
  fix message
  assume "service log (ChunkCall chunk) = Inl (Error message)"
  then show "analyzeChunkWithLLM service chunk log
               = (Inr (ChunkFailed message []), log @ [ChunkCall chunk])"
    by (simp add: analyzeChunkWithLLM_outcome chunkOutcome_def analyzeChunkBody_def)
next
  fix response
  assume "service log (ChunkCall chunk) = Inr response \<and> trim response = []"
  then show "analyzeChunkWithLLM service chunk log
               = (Inr (ChunkFailed ''Empty response from LLM'' []), log @ [ChunkCall chunk])"
    by (simp add: analyzeChunkWithLLM_outcome chunkOutcome_def analyzeChunkBody_def)
next
  fix response
  assume "service log (ChunkCall chunk) = Inr response \<and> trim response \<noteq> []
           \<and> extractJsonFromText response = None"
  then show "analyzeChunkWithLLM service chunk log
               = (Inr (ChunkFailed ''JSON parsing failed'' response), log @ [ChunkCall chunk])"
    by (auto simp: analyzeChunkWithLLM_outcome chunkOutcome_def analyzeChunkBody_def)
next
  fix response jsonContent
  assume "service log (ChunkCall chunk) = Inr response \<and> trim response \<noteq> []
           \<and> extractJsonFromText response = Some jsonContent
           \<and> JSON_parse jsonContent = None \<and> \<not> truthy (attemptJsonFix jsonContent)"
  then show "analyzeChunkWithLLM service chunk log
               = (Inr (ChunkFailed ''JSON parsing failed'' response), log @ [ChunkCall chunk])"
    by (auto simp: analyzeChunkWithLLM_outcome chunkOutcome_def analyzeChunkBody_def Let_def)
qed

theorem chunk_analyzer_never_throws_witness:
  "analyzeChunkWithLLM failingChunkService ''short doc'' [TestCall]
     = (Inr (ChunkFailed ''Connection error.'' []), [TestCall, ChunkCall ''short doc''])
   \<and> analyzeChunkWithLLM blankFirstService ''short doc'' [TestCall]
     = (Inr (ChunkFailed ''Empty response from LLM'' []), [TestCall, ChunkCall ''short doc''])"
proof
  have "failingChunkService [TestCall] (ChunkCall ''short doc'') = Inl (Error ''Connection error.'')"
    by (simp add: failingChunkService_def)
  then show "analyzeChunkWithLLM failingChunkService ''short doc'' [TestCall]
     = (Inr (ChunkFailed ''Connection error.'' []), [TestCall, ChunkCall ''short doc''])"
    using chunk_analyzer_never_throws [of failingChunkService "''short doc''" "[TestCall]"]
    by simp
next
  have "blankFirstService [TestCall] (ChunkCall ''short doc'') = Inr ''  '' \<and> trim ''  '' = []"
    by (simp add: blankFirstService_def merge_replies)
  then show "analyzeChunkWithLLM blankFirstService ''short doc'' [TestCall]
     = (Inr (ChunkFailed ''Empty response from LLM'' []), [TestCall, ChunkCall ''short doc''])"
    using chunk_analyzer_never_throws [of blankFirstService "''short doc''" "[TestCall]"]
    by simp
qed

text \<open>
  An exception of the query does not reach the orchestrator: the chunk analyzer returns a
  failed result, and the envelope of the one-chunk document reports success.
\<close>

theorem transport_fault_counterexample:
  "fst (analyzeChunkWithLLM failingChunkService ''short doc'' [TestCall])
     = Inr (ChunkFailed ''Connection error.'' [])
   \<and> success (fst (analyzeDocument failingChunkService shortDoc ''comprehensive'' [])) = True
   \<and> error (fst (analyzeDocument failingChunkService shortDoc ''comprehensive'' [])) = None
   \<and> data (fst (analyzeDocument failingChunkService shortDoc ''comprehensive'' []))
     = ChunkData (ChunkFailed ''Connection error.'' [])"
proof -
  have o: "chunkOutcome failingChunkService ''short doc'' [TestCall]
             = ChunkFailed ''Connection error.'' []"
    by (simp add: chunkOutcome_def failingChunkService_def analyzeChunkBody_def)
  have "length (documentChunks shortDoc) = 1" by (simp add: shortDoc_chunks)
  from analyzeDocument_single [OF shortDoc_valid this, of failingChunkService "''comprehensive''" "[]"]
  show ?thesis by (simp add: shortDoc_chunks o analyzeChunkWithLLM_outcome)
qed

section \<open>Single-chunk documents\<close>

text \<open>
  Claim C2 (single chunk). For a document whose text yields exactly one chunk,
  \<open>analyzeDocument\<close> issues the test query and the chunk query and no merge query, and
  returns a successful envelope whose \<open>data\<close> is the result object of that chunk as the
  chunk analyzer returned it; the parsed JSON is the \<open>data\<close> field of that object when the
  response parsed.
\<close>

theorem single_chunk_skips_synthesis:
  assumes "validContent doc" "documentChunks doc = [chunk]"
  shows "snd (analyzeDocument service doc analysisType log) = log @ [TestCall, ChunkCall chunk]
     \<and> success (fst (analyzeDocument service doc analysisType log)) = True
     \<and> error (fst (analyzeDocument service doc analysisType log)) = None
     \<and> data (fst (analyzeDocument service doc analysisType log))
         = ChunkData (chunkOutcome service chunk (log @ [TestCall]))
     \<and> (\<forall>response jsonContent parsed.
           service (log @ [TestCall]) (ChunkCall chunk) = Inr response \<and> trim response \<noteq> []
           \<and> extractJsonFromText response = Some jsonContent
           \<and> JSON_parse jsonContent = Some parsed
         \<longrightarrow> data (fst (analyzeDocument service doc analysisType log))
               = ChunkData (ChunkOk parsed False response))"
proof -
  have one: "length (documentChunks doc) = 1" using assms(2) by simp
  note single = analyzeDocument_single [OF assms(1) one, of service analysisType log]
  have d: "data (fst (analyzeDocument service doc analysisType log))
             = ChunkData (chunkOutcome service chunk (log @ [TestCall]))"
    using single assms(2) by simp
  have parsed: "data (fst (analyzeDocument service doc analysisType log))
                  = ChunkData (ChunkOk parsed False response)"
    if "service (log @ [TestCall]) (ChunkCall chunk) = Inr response \<and> trim response \<noteq> []
        \<and> extractJsonFromText response = Some jsonContent
        \<and> JSON_parse jsonContent = Some parsed"
    for response jsonContent parsed
  proof -
    from that have "jsonContent \<noteq> []" by (auto simp: JSON_parse_def)
    with that have "chunkOutcome service chunk (log @ [TestCall]) = ChunkOk parsed False response"
      by (auto simp: chunkOutcome_def analyzeChunkBody_def)
    with d show ?thesis by simp
  qed
  show ?thesis
  proof (intro conjI allI impI)
    show "snd (analyzeDocument service doc analysisType log) = log @ [TestCall, ChunkCall chunk]"
      using single assms(2) by simp
    show "success (fst (analyzeDocument service doc analysisType log)) = True"
      using single by simp
    show "error (fst (analyzeDocument service doc analysisType log)) = None"
      using single by simp
    show "data (fst (analyzeDocument service doc analysisType log))
            = ChunkData (chunkOutcome service chunk (log @ [TestCall]))"
      by (rule d)
  next
    fix response jsonContent parsed
    assume "service (log @ [TestCall]) (ChunkCall chunk) = Inr response \<and> trim response \<noteq> []
        \<and> extractJsonFromText response = Some jsonContent
        \<and> JSON_parse jsonContent = Some parsed"
    then show "data (fst (analyzeDocument service doc analysisType log))
                  = ChunkData (ChunkOk parsed False response)"
      by (rule parsed)
  qed
qed

theorem single_chunk_skips_synthesis_witness:
  "snd (analyzeDocument helpfulService shortDoc ''comprehensive'' [])
     = [TestCall, ChunkCall ''short doc'']
   \<and> data (fst (analyzeDocument helpfulService shortDoc ''comprehensive'' []))
     = ChunkData (ChunkOk (JObj [(''title'', JStr ''X'')]) False titleReply)"
proof -
  have r: "helpfulService ([] @ [TestCall]) (ChunkCall ''short doc'') = Inr titleReply"
    by (simp add: helpfulService_def)
  have e: "trim titleReply \<noteq> [] \<and> extractJsonFromText titleReply = Some titleReply
           \<and> JSON_parse titleReply = Some (JObj [(''title'', JStr ''X'')])"
    by code_simp
  note T = single_chunk_skips_synthesis
    [OF shortDoc_valid shortDoc_chunks, of helpfulService "''comprehensive''" "[]"]
  from T have "snd (analyzeDocument helpfulService shortDoc ''comprehensive'' [])
                 = [TestCall, ChunkCall ''short doc'']"
    by simp
  moreover from T r e
  have "data (fst (analyzeDocument helpfulService shortDoc ''comprehensive'' []))
          = ChunkData (ChunkOk (JObj [(''title'', JStr ''X'')]) False titleReply)"
    by blast
  ultimately show ?thesis by simp
qed

text \<open>
  The envelope of scenario 1 does not carry the parsed data itself: its \<open>data\<close> is the
  chunk result that wraps it.
\<close>

theorem single_chunk_data_counterexample:
  "data (fst (analyzeDocument helpfulService shortDoc ''comprehensive'' []))
     = ChunkData (ChunkOk (JObj [(''title'', JStr ''X'')]) False titleReply)
   \<and> data (fst (analyzeDocument helpfulService shortDoc ''comprehensive'' []))
     \<noteq> Value (JObj [(''title'', JStr ''X'')])"
proof -
  have o: "chunkOutcome helpfulService ''short doc'' [TestCall]
             = ChunkOk (JObj [(''title'', JStr ''X'')]) False titleReply"
    by (simp add: chunkOutcome_def helpfulService_def titleReply_outcome)
  have "length (documentChunks shortDoc) = 1" by (simp add: shortDoc_chunks)
  from analyzeDocument_single [OF shortDoc_valid this, of helpfulService "''comprehensive''" "[]"]
  show ?thesis by (simp add: shortDoc_chunks o)
qed

section \<open>The synthesizer and the envelope\<close>

lemma synthesizeResults_log:
  "filter hasNoError chunkResults \<noteq> [] \<Longrightarrow>
     snd (synthesizeResults service chunkResults analysisType originalContent log)
       = log @ [SynthesisCall (filter hasNoError chunkResults) (contentSummary originalContent)
                  analysisType]"
  by (auto simp: synthesizeResults_def Let_def query_def split: sum.splits option.splits)

lemma synthesizeResults_unparseable:
  assumes "filter hasNoError chunkResults \<noteq> []"
    and "service log (SynthesisCall (filter hasNoError chunkResults)
                        (contentSummary originalContent) analysisType) = Inr response"
    and "JSON_parse response = None"
  shows "fst (synthesizeResults service chunkResults analysisType originalContent log)
           = Inr (synthesisErrorResult response)"
  using assms by (simp add: synthesizeResults_def Let_def query_def)

lemma synthesizeResults_parsed:
  assumes "filter hasNoError chunkResults \<noteq> []"
    and "service log (SynthesisCall (filter hasNoError chunkResults)
                        (contentSummary originalContent) analysisType) = Inr response"
    and "JSON_parse response = Some v"
  shows "fst (synthesizeResults service chunkResults analysisType originalContent log) = Inr v"
  using assms by (simp add: synthesizeResults_def Let_def query_def)

lemma synthesizeResults_throws:
  assumes "filter hasNoError chunkResults \<noteq> []"
    and "service log (SynthesisCall (filter hasNoError chunkResults)
                        (contentSummary originalContent) analysisType) = Inl e"
  shows "fst (synthesizeResults service chunkResults analysisType originalContent log)
           = basicCombineResults (filter hasNoError chunkResults) analysisType"
  using assms by (simp add: synthesizeResults_def Let_def query_def)

lemma analyzeDocument_multi_fst:
  assumes "validContent doc" "length (documentChunks doc) \<noteq> 1"
    and "fst (synthesizeResults service
               (chunkOutcomes service (documentChunks doc) (log @ [TestCall]))
               analysisType (cleanTextContent (extractContent doc))
               (log @ [TestCall] @ map ChunkCall (documentChunks doc))) = outcome"
  shows "fst (analyzeDocument service doc analysisType log)
           = (case outcome of Inl (Error message) \<Rightarrow> failure message
              | Inr v \<Rightarrow> multiEnvelope doc analysisType v)"
  using assms(3) unfolding analyzeDocument_multi [OF assms(1,2)]
  by (auto split: prod.splits sum.splits exn.splits)

lemma analyzeDocument_multi_snd:
  assumes "validContent doc" "length (documentChunks doc) \<noteq> 1"
  shows "snd (analyzeDocument service doc analysisType log)
           = snd (synthesizeResults service
               (chunkOutcomes service (documentChunks doc) (log @ [TestCall]))
               analysisType (cleanTextContent (extractContent doc))
               (log @ [TestCall] @ map ChunkCall (documentChunks doc)))"
  unfolding analyzeDocument_multi [OF assms(1,2)]
  by (auto split: prod.splits sum.splits exn.splits)

lemma twoChunk_outcomes:
  assumes "\<And>log chunk. service log (ChunkCall chunk) = Inr titleReply"
  shows "chunkOutcomes service (documentChunks twoChunkDoc) log
           = [ChunkOk (JObj [(''title'', JStr ''X'')]) False titleReply,
              ChunkOk (JObj [(''title'', JStr ''X'')]) False titleReply]"
  by (simp add: twoChunkDoc_chunks chunkOutcome_def assms titleReply_outcome)

lemma twoChunk_multi: "length (documentChunks twoChunkDoc) \<noteq> 1"
  by (simp add: twoChunkDoc_chunks)

lemma synthesizeResults_outcomes:
  "fst (synthesizeResults service chunkResults analysisType originalContent log) = Inr noValidResults
   \<or> (\<exists>message. fst (synthesizeResults service chunkResults analysisType originalContent log)
                   = Inl (Error message))
   \<or> (\<exists>response. fst (synthesizeResults service chunkResults analysisType originalContent log)
                    = Inr (synthesisErrorResult response))
   \<or> (\<exists>response v.
         service log (SynthesisCall (filter hasNoError chunkResults)
                        (contentSummary originalContent) analysisType) = Inr response
         \<and> JSON_parse response = Some v
         \<and> fst (synthesizeResults service chunkResults analysisType originalContent log) = Inr v)"
  by (auto simp: synthesizeResults_def Let_def query_def basicCombineResults_def
      split: sum.splits option.splits)

text \<open>
  Apart from a merge answer that parses to \<open>null\<close>, every envelope keeps the contract:
  success goes with no error, failure goes with \<open>null\<close> data and an error message, and a
  successful envelope has \<open>null\<close> data only in that one case.
\<close>

lemma envelope_contract_up_to_null_merge:
  fixes service :: llm and doc :: document and analysisType :: string
    and log :: "llm_call list"
  defines "r \<equiv> fst (analyzeDocument service doc analysisType log)"
  shows "(success r \<longleftrightarrow> error r = None)
     \<and> (\<not> success r \<longrightarrow> data r = Value JNull)
     \<and> (success r \<and> data r = Value JNull \<longrightarrow>
          (\<exists>response.
             service (log @ [TestCall] @ map ChunkCall (documentChunks doc))
               (SynthesisCall
                  (filter hasNoError (chunkOutcomes service (documentChunks doc) (log @ [TestCall])))
                  (contentSummary (cleanTextContent (extractContent doc))) analysisType)
               = Inr response
             \<and> JSON_parse response = Some JNull))"
proof (cases "validContent doc")
  case False
  then show ?thesis
    by (simp add: r_def analyzeDocument_invalid failure_def)
next
  case valid: True
  show ?thesis
  proof (cases "length (documentChunks doc) = 1")
    case True
    from analyzeDocument_single [OF valid True, of service analysisType log]
    show ?thesis by (simp add: r_def)
  next
    case False
    let ?s = "synthesizeResults service
               (chunkOutcomes service (documentChunks doc) (log @ [TestCall]))
               analysisType (cleanTextContent (extractContent doc))
               (log @ [TestCall] @ map ChunkCall (documentChunks doc))"
    note m = analyzeDocument_multi_fst
      [where service = service and analysisType = analysisType and log = log,
        OF valid False refl]
    from synthesizeResults_outcomes
      [of service "chunkOutcomes service (documentChunks doc) (log @ [TestCall])"
        analysisType "cleanTextContent (extractContent doc)"
        "log @ [TestCall] @ map ChunkCall (documentChunks doc)"]
    show ?thesis
    proof (elim disjE exE conjE)
      assume "fst ?s = Inr noValidResults"
      with m show ?thesis by (simp add: r_def multiEnvelope_def noValidResults_def)
    next
      fix message assume "fst ?s = Inl (Error message)"
      with m show ?thesis by (simp add: r_def failure_def)
    next
      fix response assume "fst ?s = Inr (synthesisErrorResult response)"
      with m show ?thesis by (simp add: r_def multiEnvelope_def synthesisErrorResult_def)
    next
      fix response v
      assume "service (log @ [TestCall] @ map ChunkCall (documentChunks doc))
               (SynthesisCall
                  (filter hasNoError (chunkOutcomes service (documentChunks doc) (log @ [TestCall])))
                  (contentSummary (cleanTextContent (extractContent doc))) analysisType)
               = Inr response"
        "JSON_parse response = Some v" "fst ?s = Inr v"
      with m show ?thesis by (auto simp: r_def multiEnvelope_def)
    qed
  qed
qed

text \<open>
  Claim C1 (envelope). A two-chunk document whose merge call is answered with the text
  \<open>null\<close>: the envelope reports success, carries no error, and its \<open>data\<close> is \<open>null\<close>.
\<close>

theorem null_merge_envelope:
  "success (fst (analyzeDocument nullMergeService twoChunkDoc ''comprehensive'' [])) = True
   \<and> error (fst (analyzeDocument nullMergeService twoChunkDoc ''comprehensive'' [])) = None
   \<and> data (fst (analyzeDocument nullMergeService twoChunkDoc ''comprehensive'' [])) = Value JNull"
proof -
  have o: "chunkOutcomes nullMergeService (documentChunks twoChunkDoc) log
           = [ChunkOk (JObj [(''title'', JStr ''X'')]) False titleReply,
              ChunkOk (JObj [(''title'', JStr ''X'')]) False titleReply]" for log
    by (rule twoChunk_outcomes) (simp add: nullMergeService_def)
  have "fst (synthesizeResults nullMergeService
               (chunkOutcomes nullMergeService (documentChunks twoChunkDoc) ([] @ [TestCall]))
               ''comprehensive'' (cleanTextContent (extractContent twoChunkDoc))
               ([] @ [TestCall] @ map ChunkCall (documentChunks twoChunkDoc))) = Inr JNull"
    by (rule synthesizeResults_parsed [where response = "''null''"])
       (simp_all add: o nullMergeService_def merge_replies)
  from analyzeDocument_multi_fst [OF twoChunkDoc_valid twoChunk_multi this]
  show ?thesis by (simp add: multiEnvelope_def)
qed

section \<open>Empty responses\<close>

text \<open>
  Claim C9 (empty response). A blank response makes the chunk analyzer return the failed
  result \<open>Empty response from LLM\<close> with empty raw content, nothing thrown. In a
  multi-chunk analysis the merge call is still issued, and the results it is given
  include the result of every sibling chunk that has no error, and not the failed one.
\<close>

theorem empty_response_fails_one_chunk_only:
  "(\<forall>response. service log (ChunkCall chunk) = Inr response \<and> trim response = []
       \<longrightarrow> analyzeChunkWithLLM service chunk log
             = (Inr (ChunkFailed ''Empty response from LLM'' []), log @ [ChunkCall chunk]))
   \<and> (\<forall>k j response.
         validContent doc \<and> length (documentChunks doc) \<noteq> 1
         \<and> k < length (documentChunks doc) \<and> j < length (documentChunks doc)
         \<and> service (log @ [TestCall] @ map ChunkCall (take k (documentChunks doc)))
              (ChunkCall (documentChunks doc ! k)) = Inr response
         \<and> trim response = []
         \<and> hasNoError (chunkOutcome service (documentChunks doc ! j)
                          (log @ [TestCall] @ map ChunkCall (take j (documentChunks doc))))
       \<longrightarrow> chunkOutcomes service (documentChunks doc) (log @ [TestCall]) ! k
             = ChunkFailed ''Empty response from LLM'' []
           \<and> (\<exists>results.
                 snd (analyzeDocument service doc analysisType log)
                   = log @ [TestCall] @ map ChunkCall (documentChunks doc)
                       @ [SynthesisCall results
                            (contentSummary (cleanTextContent (extractContent doc))) analysisType]
                 \<and> chunkOutcome service (documentChunks doc ! j)
                      (log @ [TestCall] @ map ChunkCall (take j (documentChunks doc)))
                      \<in> set results
                 \<and> ChunkFailed ''Empty response from LLM'' [] \<notin> set results))"
proof (intro conjI allI impI)
  fix response
  assume "service log (ChunkCall chunk) = Inr response \<and> trim response = []"
  then show "analyzeChunkWithLLM service chunk log
             = (Inr (ChunkFailed ''Empty response from LLM'' []), log @ [ChunkCall chunk])"
    by (simp add: analyzeChunkWithLLM_outcome chunkOutcome_def analyzeChunkBody_def)
next
  fix k j response
  let ?chunks = "documentChunks doc"
  let ?rs = "chunkOutcomes service ?chunks (log @ [TestCall])"
  assume h: "validContent doc \<and> length ?chunks \<noteq> 1
         \<and> k < length ?chunks \<and> j < length ?chunks
         \<and> service (log @ [TestCall] @ map ChunkCall (take k ?chunks))
              (ChunkCall (?chunks ! k)) = Inr response
         \<and> trim response = []
         \<and> hasNoError (chunkOutcome service (?chunks ! j)
                          (log @ [TestCall] @ map ChunkCall (take j ?chunks)))"
  let ?good = "chunkOutcome service (?chunks ! j) (log @ [TestCall] @ map ChunkCall (take j ?chunks))"
  have rk: "?rs ! k = ChunkFailed ''Empty response from LLM'' []"
    using h by (simp add: chunkOutcomes_nth chunkOutcome_def analyzeChunkBody_def)
  have rj: "?rs ! j = ?good" using h by (simp add: chunkOutcomes_nth)
  have "?good \<in> set ?rs" using h rj by (metis chunkOutcomes_length nth_mem)
  with h have good: "?good \<in> set (filter hasNoError ?rs)" by simp
  then have ne: "filter hasNoError ?rs \<noteq> []" by (metis empty_iff empty_set)
  have bad: "ChunkFailed ''Empty response from LLM'' [] \<notin> set (filter hasNoError ?rs)"
    by simp
  have "snd (analyzeDocument service doc analysisType log)
          = log @ [TestCall] @ map ChunkCall ?chunks
              @ [SynthesisCall (filter hasNoError ?rs)
                   (contentSummary (cleanTextContent (extractContent doc))) analysisType]"
    using h by (simp add: analyzeDocument_multi_snd synthesizeResults_log [OF ne])
  with good bad
  show "\<exists>results.
                 snd (analyzeDocument service doc analysisType log)
                   = log @ [TestCall] @ map ChunkCall ?chunks
                       @ [SynthesisCall results
                            (contentSummary (cleanTextContent (extractContent doc))) analysisType]
                 \<and> ?good \<in> set results
                 \<and> ChunkFailed ''Empty response from LLM'' [] \<notin> set results"
    by blast
  show "?rs ! k = ChunkFailed ''Empty response from LLM'' []" by (rule rk)
qed

theorem empty_response_fails_one_chunk_only_witness:
  "chunkOutcomes blankFirstService (documentChunks twoChunkDoc) ([] @ [TestCall]) ! 0
     = ChunkFailed ''Empty response from LLM'' []
   \<and> (\<exists>results.
         snd (analyzeDocument blankFirstService twoChunkDoc ''comprehensive'' [])
           = [] @ [TestCall] @ map ChunkCall (documentChunks twoChunkDoc)
               @ [SynthesisCall results
                    (contentSummary (cleanTextContent (extractContent twoChunkDoc)))
                    ''comprehensive'']
         \<and> ChunkOk (JObj [(''title'', JStr ''X'')]) False titleReply \<in> set results
         \<and> ChunkFailed ''Empty response from LLM'' [] \<notin> set results)"
proof -
  let ?chunks = "documentChunks twoChunkDoc"
  have len: "length ?chunks = 2" by (simp add: twoChunkDoc_chunks)
  have blank: "blankFirstService ([] @ [TestCall] @ map ChunkCall (take 0 ?chunks))
                 (ChunkCall (?chunks ! 0)) = Inr ''  ''"
    by (simp add: blankFirstService_def)
  have sibling: "chunkOutcome blankFirstService (?chunks ! 1)
                   ([] @ [TestCall] @ map ChunkCall (take 1 ?chunks))
                 = ChunkOk (JObj [(''title'', JStr ''X'')]) False titleReply"
    by (simp add: chunkOutcome_def blankFirstService_def twoChunkDoc_chunks titleReply_outcome)
  have "validContent twoChunkDoc \<and> length ?chunks \<noteq> 1
         \<and> 0 < length ?chunks \<and> 1 < length ?chunks
         \<and> blankFirstService ([] @ [TestCall] @ map ChunkCall (take 0 ?chunks))
              (ChunkCall (?chunks ! 0)) = Inr ''  ''
         \<and> trim ''  '' = []
         \<and> hasNoError (chunkOutcome blankFirstService (?chunks ! 1)
                          ([] @ [TestCall] @ map ChunkCall (take 1 ?chunks)))"
    using twoChunkDoc_valid len blank sibling merge_replies(3) by simp
  from empty_response_fails_one_chunk_only
    [where service = blankFirstService and doc = twoChunkDoc and log = "[]"
      and analysisType = "''comprehensive''",
      THEN conjunct2, rule_format, OF this]
  show ?thesis unfolding sibling .
qed

section \<open>Faults of the merge step\<close>

text \<open>
  Claim C4 (synthesis faults). When at least one chunk result has no error and the merge
  call answers with text that \<open>JSON.parse\<close> rejects, \<open>_synthesizeResults\<close> returns the object
  \<open>{synthesisError: "Could not parse synthesis result", rawSynthesis: response}\<close>, and the
  envelope of a multi-chunk analysis reports success with that object as its \<open>data\<close>.
\<close>

theorem unparseable_merge_yields_error_object:
  "(\<forall>response.
       filter hasNoError chunkResults \<noteq> []
       \<and> service log0 (SynthesisCall (filter hasNoError chunkResults)
                          (contentSummary originalContent) analysisType) = Inr response
       \<and> JSON_parse response = None
     \<longrightarrow> fst (synthesizeResults service chunkResults analysisType originalContent log0)
           = Inr (synthesisErrorResult response))
   \<and> (\<forall>response.
         validContent doc \<and> length (documentChunks doc) \<noteq> 1
         \<and> filter hasNoError (chunkOutcomes service (documentChunks doc) (log @ [TestCall])) \<noteq> []
         \<and> service (log @ [TestCall] @ map ChunkCall (documentChunks doc))
              (SynthesisCall
                 (filter hasNoError (chunkOutcomes service (documentChunks doc) (log @ [TestCall])))
                 (contentSummary (cleanTextContent (extractContent doc))) analysisType)
              = Inr response
         \<and> JSON_parse response = None
       \<longrightarrow> success (fst (analyzeDocument service doc analysisType log)) = True
           \<and> error (fst (analyzeDocument service doc analysisType log)) = None
           \<and> data (fst (analyzeDocument service doc analysisType log))
               = Value (synthesisErrorResult response))"
proof (intro conjI allI impI)
  fix response
  assume "filter hasNoError chunkResults \<noteq> []
       \<and> service log0 (SynthesisCall (filter hasNoError chunkResults)
                          (contentSummary originalContent) analysisType) = Inr response
       \<and> JSON_parse response = None"
  then show "fst (synthesizeResults service chunkResults analysisType originalContent log0)
           = Inr (synthesisErrorResult response)"
    using synthesizeResults_unparseable by blast
next
  fix response
  assume h: "validContent doc \<and> length (documentChunks doc) \<noteq> 1
         \<and> filter hasNoError (chunkOutcomes service (documentChunks doc) (log @ [TestCall])) \<noteq> []
         \<and> service (log @ [TestCall] @ map ChunkCall (documentChunks doc))
              (SynthesisCall
                 (filter hasNoError (chunkOutcomes service (documentChunks doc) (log @ [TestCall])))
                 (contentSummary (cleanTextContent (extractContent doc))) analysisType)
              = Inr response
         \<and> JSON_parse response = None"
  then have "fst (synthesizeResults service
               (chunkOutcomes service (documentChunks doc) (log @ [TestCall]))
               analysisType (cleanTextContent (extractContent doc))
               (log @ [TestCall] @ map ChunkCall (documentChunks doc)))
             = Inr (synthesisErrorResult response)"
    using synthesizeResults_unparseable by blast
  with h have e: "fst (analyzeDocument service doc analysisType log)
                 = multiEnvelope doc analysisType (synthesisErrorResult response)"
    using analyzeDocument_multi_fst
      [where service = service and analysisType = analysisType and log = log and doc = doc]
    by simp
  show "success (fst (analyzeDocument service doc analysisType log)) = True"
    and "error (fst (analyzeDocument service doc analysisType log)) = None"
    and "data (fst (analyzeDocument service doc analysisType log))
               = Value (synthesisErrorResult response)"
    by (simp_all add: e multiEnvelope_def)
qed

lemma garbled_outcomes:
  "chunkOutcomes garbledMergeService (documentChunks twoChunkDoc) l
     = [ChunkOk (JObj [(''title'', JStr ''X'')]) False titleReply,
        ChunkOk (JObj [(''title'', JStr ''X'')]) False titleReply]"
  by (rule twoChunk_outcomes) (simp add: garbledMergeService_def)

theorem unparseable_merge_yields_error_object_witness:
  "success (fst (analyzeDocument garbledMergeService twoChunkDoc ''comprehensive'' [])) = True
   \<and> error (fst (analyzeDocument garbledMergeService twoChunkDoc ''comprehensive'' [])) = None
   \<and> data (fst (analyzeDocument garbledMergeService twoChunkDoc ''comprehensive'' []))
       = Value (synthesisErrorResult ''Here is the merged analysis.'')"
proof -
  have "validContent twoChunkDoc \<and> length (documentChunks twoChunkDoc) \<noteq> 1
     \<and> filter hasNoError (chunkOutcomes garbledMergeService (documentChunks twoChunkDoc)
                             ([] @ [TestCall])) \<noteq> []
     \<and> garbledMergeService ([] @ [TestCall] @ map ChunkCall (documentChunks twoChunkDoc))
          (SynthesisCall
             (filter hasNoError (chunkOutcomes garbledMergeService (documentChunks twoChunkDoc)
                                   ([] @ [TestCall])))
             (contentSummary (cleanTextContent (extractContent twoChunkDoc))) ''comprehensive'')
          = Inr ''Here is the merged analysis.''
     \<and> JSON_parse ''Here is the merged analysis.'' = None"
    using twoChunkDoc_valid twoChunk_multi merge_replies(2)
    by (simp add: garbled_outcomes garbledMergeService_def)
  from unparseable_merge_yields_error_object
    [where service = garbledMergeService and doc = twoChunkDoc and log = "[]"
      and analysisType = "''comprehensive''",
      THEN conjunct2, rule_format, OF this]
  show ?thesis .
qed

text \<open>
  A merge call that throws makes the whole analysis fail, the fallback combiner being
  undefined; a merge answer that does not parse is wrapped, not replaced by a combination
  of the chunk results.
\<close>

theorem synthesis_fault_counterexample:
  "success (fst (analyzeDocument failingMergeService twoChunkDoc ''comprehensive'' [])) = False
   \<and> error (fst (analyzeDocument failingMergeService twoChunkDoc ''comprehensive'' []))
       = Some ''this._combineComprehensiveResults is not a function''
   \<and> data (fst (analyzeDocument failingMergeService twoChunkDoc ''comprehensive'' []))
       = Value JNull
   \<and> data (fst (analyzeDocument garbledMergeService twoChunkDoc ''comprehensive'' []))
       = Value (JObj [(''synthesisError'', JStr ''Could not parse synthesis result''),
                      (''rawSynthesis'', JStr ''Here is the merged analysis.'')])"
proof -
  have o: "chunkOutcomes failingMergeService (documentChunks twoChunkDoc) l
           = [ChunkOk (JObj [(''title'', JStr ''X'')]) False titleReply,
              ChunkOk (JObj [(''title'', JStr ''X'')]) False titleReply]" for l
    by (rule twoChunk_outcomes) (simp add: failingMergeService_def)
  have "fst (synthesizeResults failingMergeService
               (chunkOutcomes failingMergeService (documentChunks twoChunkDoc) ([] @ [TestCall]))
               ''comprehensive'' (cleanTextContent (extractContent twoChunkDoc))
               ([] @ [TestCall] @ map ChunkCall (documentChunks twoChunkDoc)))
          = Inl (Error ''this._combineComprehensiveResults is not a function'')"
    by (subst synthesizeResults_throws [where e = "Error ''Connection error.''"])
       (simp_all add: o failingMergeService_def basicCombineResults_def)
  from analyzeDocument_multi_fst [OF twoChunkDoc_valid twoChunk_multi this]
  have f: "fst (analyzeDocument failingMergeService twoChunkDoc ''comprehensive'' [])
             = failure ''this._combineComprehensiveResults is not a function''"
    by simp
  have g: "fst (synthesizeResults garbledMergeService
               (chunkOutcomes garbledMergeService (documentChunks twoChunkDoc) ([] @ [TestCall]))
               ''comprehensive'' (cleanTextContent (extractContent twoChunkDoc))
               ([] @ [TestCall] @ map ChunkCall (documentChunks twoChunkDoc)))
          = Inr (synthesisErrorResult ''Here is the merged analysis.'')"
    by (rule synthesizeResults_unparseable)
       (simp_all add: garbled_outcomes garbledMergeService_def merge_replies)
  from analyzeDocument_multi_fst [OF twoChunkDoc_valid twoChunk_multi g]
  have "data (fst (analyzeDocument garbledMergeService twoChunkDoc ''comprehensive'' []))
          = Value (synthesisErrorResult ''Here is the merged analysis.'')"
    by (simp add: multiEnvelope_def)
  with f show ?thesis by (simp add: failure_def synthesisErrorResult_def)
qed

section \<open>The repair function and double quotes\<close>

subsection \<open>A text whose first double quote follows a backslash is not JSON\<close>

lemma quotesEscaped_dropWhile:
  assumes "\<And>x. P x \<Longrightarrow> x \<noteq> backslash"
  shows "quotesEscaped False cs \<Longrightarrow> quotesEscaped False (dropWhile P cs)"
  using assms by (induction cs) auto

lemma dquote_dropWhile:
  assumes "\<And>x. P x \<Longrightarrow> x \<noteq> dquote"
  shows "dquote \<in> set cs \<Longrightarrow> dquote \<in> set (dropWhile P cs)"
  using assms by (induction cs) auto

lemma isNumberChar_plain: "isNumberChar x \<Longrightarrow> x \<noteq> backslash \<and> x \<noteq> dquote"
  by (auto simp: isNumberChar_def isDigit_def)

lemma literal_rest:
  assumes "prefix lit (c # cs)" "length lit = Suc n" "dquote \<notin> set lit" "backslash \<notin> set lit"
    and "quotesEscaped False (c # cs)" "dquote \<in> set (c # cs)"
  shows "quotesEscaped False (drop n cs) \<and> dquote \<in> set (drop n cs)"
proof -
  from assms(1) obtain rest where r: "c # cs = lit @ rest" by (auto simp: prefix_def)
  with assms(2) have d: "drop n cs = rest"
    by (metis append_eq_conv_conj drop_Suc_Cons)
  have q: "quotesEscaped False (xs @ rest) \<Longrightarrow> xs \<noteq> [] \<Longrightarrow> dquote \<notin> set xs
            \<Longrightarrow> backslash \<notin> set xs \<Longrightarrow> quotesEscaped False rest" for xs
  proof (induction xs)
    case Nil
    then show ?case by simp
  next
    case (Cons x xs)
    then show ?case by (cases xs) auto
  qed
  from assms(2) have "lit \<noteq> []" by auto
  with q [of lit] assms r have "quotesEscaped False rest" by simp
  moreover from assms(3,6) r have "dquote \<in> set rest" by auto
  ultimately show ?thesis using d by simp
qed

lemma tokenize_escaped_quote:
  "quotesEscaped False s \<Longrightarrow> dquote \<in> set s \<Longrightarrow> tokenize s = None"
proof (induction s rule: tokenize.induct)
  case 1
  then show ?case by simp
next
  case (2 c cs)
  from "2.prems" have cq: "c \<noteq> dquote" by auto
  with "2.prems" have incs: "dquote \<in> set cs" by simp
  from "2.prems" have qcs: "quotesEscaped (c = backslash) cs" by simp
  consider (ws) "isJsonWhitespace c"
    | (punct) "\<not> isJsonWhitespace c" "c \<in> set ''{}[],:''"
    | (num) "\<not> isJsonWhitespace c" "c \<notin> set ''{}[],:''" "c = CHR ''-'' \<or> isDigit c"
    | (lit) "\<not> isJsonWhitespace c" "c \<notin> set ''{}[],:''" "\<not> (c = CHR ''-'' \<or> isDigit c)"
    by blast
  then show ?case
  proof cases
    case ws
    then have "c \<noteq> backslash" by (auto simp: isJsonWhitespace_def)
    with qcs incs "2.IH"(1) [OF ws] ws show ?thesis by simp
  next
    case punct
    then have nb: "c \<noteq> backslash" by auto
    with qcs have q: "quotesEscaped False cs" by simp
    from punct(2) consider "c = CHR ''{''" | "c = CHR ''}''" | "c = CHR ''[''" | "c = CHR '']''"
      | "c = CHR '',''" | "c = CHR '':''" by auto
    then show ?thesis
    proof cases
      case 1 with punct(1) "2.IH"(2) q incs show ?thesis by simp
    next
      case 2 with punct(1) "2.IH"(3) q incs show ?thesis by simp
    next
      case 3 with punct(1) "2.IH"(4) q incs show ?thesis by simp
    next
      case 4 with punct(1) "2.IH"(5) q incs show ?thesis by simp
    next
      case 5 with punct(1) "2.IH"(6) q incs show ?thesis by simp
    next
      case 6 with punct(1) "2.IH"(7) q incs show ?thesis by simp
    qed
  next
    case num
    then have nb: "c \<noteq> backslash" by (auto simp: isDigit_def)
    with qcs have q: "quotesEscaped False cs" by simp
    have q': "quotesEscaped False (dropWhile isNumberChar cs)"
      by (rule quotesEscaped_dropWhile [OF _ q]) (simp add: isNumberChar_plain)
    have in': "dquote \<in> set (dropWhile isNumberChar cs)"
      by (rule dquote_dropWhile [OF _ incs]) (simp add: isNumberChar_plain)
    show ?thesis
    proof (cases "parseNumber (c # takeWhile isNumberChar cs)")
      case None
      with num cq show ?thesis by simp
    next
      case (Some me)
      obtain m e where me: "me = (m, e)" by (cases me)
      from num have np: "c \<noteq> CHR ''{''" "c \<noteq> CHR ''}''" "c \<noteq> CHR ''[''" "c \<noteq> CHR '']''"
        "c \<noteq> CHR '',''" "c \<noteq> CHR '':''" by auto
      from "2.IH"(9) [OF num(1) np cq num(3) Some me [symmetric] q' in']
      have "tokenize (dropWhile isNumberChar cs) = None" .
      with num cq Some me show ?thesis by simp
    qed
  next
    case lit
    from lit have np: "c \<noteq> CHR ''{''" "c \<noteq> CHR ''}''" "c \<noteq> CHR ''[''" "c \<noteq> CHR '']''"
      "c \<noteq> CHR '',''" "c \<noteq> CHR '':''" by auto
    show ?thesis
    proof (cases "prefix ''true'' (c # cs)")
      case True
      have "quotesEscaped False (drop 3 cs) \<and> dquote \<in> set (drop 3 cs)"
        by (rule literal_rest [OF True]) (use "2.prems" in simp_all)
      with "2.IH"(10) [OF lit(1) np cq lit(3) True] have "tokenize (drop 3 cs) = None" by simp
      with lit cq True show ?thesis by auto
    next
      case nt: False
      show ?thesis
      proof (cases "prefix ''false'' (c # cs)")
        case True
        have "quotesEscaped False (drop 4 cs) \<and> dquote \<in> set (drop 4 cs)"
          by (rule literal_rest [OF True]) (use "2.prems" in simp_all)
        with "2.IH"(11) [OF lit(1) np cq lit(3) nt True]
        have "tokenize (drop 4 cs) = None" by simp
        with lit cq nt True show ?thesis by auto
      next
        case nf: False
        show ?thesis
        proof (cases "prefix ''null'' (c # cs)")
          case True
          have "quotesEscaped False (drop 3 cs) \<and> dquote \<in> set (drop 3 cs)"
            by (rule literal_rest [OF True]) (use "2.prems" in simp_all)
          with "2.IH"(12) [OF lit(1) np cq lit(3) nt nf True]
          have "tokenize (drop 3 cs) = None" by simp
          with lit cq nt nf True show ?thesis by auto
        next
          case False
          with lit cq nt nf show ?thesis by auto
        qed
      qed
    qed
  qed
qed

lemma JSON_parse_escaped_quote:
  "quotesEscaped False s \<Longrightarrow> dquote \<in> set s \<Longrightarrow> JSON_parse s = None"
  by (simp add: JSON_parse_def tokenize_escaped_quote)

subsection \<open>The cleaning passes escape every double quote\<close>

lemma quotesEscaped_escapeQuotes: "quotesEscaped b (escapeQuotes b s)"
  by (induction s arbitrary: b) auto

lemma quotesEscaped_fixDoubleEscaping:
  "quotesEscaped b s \<Longrightarrow> quotesEscaped b (fixDoubleEscaping s)"
proof (induction s arbitrary: b rule: fixDoubleEscaping.induct)
  case (1 c1 c2 c3 cs)
  show ?case
  proof (cases "c1 = backslash \<and> c2 = backslash \<and> c3 = dquote")
    case True
    with "1.prems" have "quotesEscaped False cs" by simp
    with "1.IH"(1) [OF True] True show ?thesis by simp
  next
    case False
    from "1.prems" have "quotesEscaped (c1 = backslash) (c2 # c3 # cs)" by simp
    from "1.IH"(2) [OF False this] "1.prems" False show ?thesis by auto
  qed
qed simp_all

lemma singleToDoubleQuotes_id: "squote \<notin> set s \<Longrightarrow> singleToDoubleQuotes s = s"
  by (induction s) (auto simp: singleToDoubleQuotes_def)

lemma removeFences_set: "set (removeFences s) \<subseteq> set s"
proof (induction s rule: removeFences.induct)
  case 1
  show ?case by simp
next
  case (2 c cs)
  have d: "set (drop n cs) \<subseteq> set cs" for n by (rule set_drop_subset)
  show ?case
  proof (cases "prefix [backtick, backtick, backtick, CHR ''j'', CHR ''s'', CHR ''o'', CHR ''n''] (c # cs)")
    case True
    with "2.IH"(1) d [of 6] show ?thesis by auto
  next
    case f1: False
    show ?thesis
    proof (cases "prefix [backtick, backtick, backtick] (c # cs)")
      case True
      with f1 "2.IH"(2) d [of 2] show ?thesis by auto
    next
      case False
      with f1 "2.IH"(3) show ?thesis by auto
    qed
  qed
qed

lemma trim_set: "set (trim s) \<subseteq> set s"
proof -
  have "set (dropWhile P xs) \<subseteq> set xs" for P and xs :: string
    by (rule set_dropWhileD [THEN subsetI])
  then show ?thesis unfolding trim_def by (metis (no_types, lifting) order_trans set_rev)
qed

lemma escapeQuotes_set: "set (escapeQuotes b s) \<subseteq> insert backslash (set s)"
  by (induction s arbitrary: b) auto

lemma fixDoubleEscaping_set: "set (fixDoubleEscaping s) \<subseteq> set s"
  by (induction s rule: fixDoubleEscaping.induct) auto

lemma cleanJson_escaped:
  assumes "squote \<notin> set s"
  shows "cleanJson s = fixDoubleEscaping (escapeQuotes False (trim (removeFences s)))"
    and "quotesEscaped False (cleanJson s)"
proof -
  let ?c = "fixDoubleEscaping (escapeQuotes False (trim (removeFences s)))"
  have "set ?c \<subseteq> insert backslash (set s)"
    using fixDoubleEscaping_set escapeQuotes_set trim_set removeFences_set
    by (meson insert_mono order_trans)
  with assms have "squote \<notin> set ?c" by auto
  then show c: "cleanJson s = ?c" by (simp add: cleanJson_def singleToDoubleQuotes_id)
  show "quotesEscaped False (cleanJson s)"
    unfolding c by (rule quotesEscaped_fixDoubleEscaping) (rule quotesEscaped_escapeQuotes)
qed

subsection \<open>The cleaning passes keep braces and double quotes in place\<close>

lemma skeleton_removeFences: "skeleton (removeFences s) = skeleton s"
proof (induction s rule: removeFences.induct)
  case 1
  show ?case by simp
next
  case (2 c cs)
  let ?long = "[backtick, backtick, backtick, CHR ''j'', CHR ''s'', CHR ''o'', CHR ''n'']"
  let ?short = "[backtick, backtick, backtick]"
  show ?case
  proof (cases "prefix ?long (c # cs)")
    case True
    then obtain rest where r: "c # cs = ?long @ rest" by (auto simp: prefix_def)
    then have d: "drop 6 cs = rest" by auto
    have sk: "skeleton (c # cs) = skeleton rest"
      unfolding r by (simp add: skeleton_def)
    have step: "removeFences (c # cs) = removeFences rest"
      using True d by (simp only: removeFences.simps if_True)
    have "skeleton (removeFences rest) = skeleton rest"
      using "2.IH"(1) [OF True] d by (simp only:)
    then show ?thesis unfolding step sk .
  next
    case f1: False
    show ?thesis
    proof (cases "prefix ?short (c # cs)")
      case True
      then obtain rest where r: "c # cs = ?short @ rest" by (auto simp: prefix_def)
      then have d: "drop 2 cs = rest" by auto
      have sk: "skeleton (c # cs) = skeleton rest"
        unfolding r by (simp add: skeleton_def)
      have step: "removeFences (c # cs) = removeFences rest"
        using f1 True d by (simp only: removeFences.simps if_True if_False)
      have "skeleton (removeFences rest) = skeleton rest"
        using "2.IH"(2) [OF f1 True] d by (simp only:)
      then show ?thesis unfolding step sk .
    next
      case False
      have step: "removeFences (c # cs) = c # removeFences cs"
        using f1 False by (simp only: removeFences.simps if_False)
      show ?thesis unfolding step using "2.IH"(3) [OF f1 False] by (simp add: skeleton_def)
    qed
  qed
qed

lemma skeleton_dropWhile_space: "skeleton (dropWhile isSpace s) = skeleton s"
  by (induction s) (auto simp: skeleton_def isSpace_def)

lemma skeleton_rev: "skeleton (rev s) = rev (skeleton s)"
  by (simp add: skeleton_def rev_filter)

lemma skeleton_trim: "skeleton (trim s) = skeleton s"
  by (simp add: trim_def skeleton_rev skeleton_dropWhile_space)

lemma skeleton_escapeQuotes: "skeleton (escapeQuotes b s) = skeleton s"
  by (induction s arbitrary: b) (auto simp: skeleton_def)

lemma skeleton_fixDoubleEscaping: "skeleton (fixDoubleEscaping s) = skeleton s"
  by (induction s rule: fixDoubleEscaping.induct) (auto simp: skeleton_def)

lemma skeleton_cleanJson: "squote \<notin> set s \<Longrightarrow> skeleton (cleanJson s) = skeleton s"
  by (simp add: cleanJson_escaped(1) skeleton_fixDoubleEscaping skeleton_escapeQuotes
      skeleton_trim skeleton_removeFences)

lemma dquote_skeleton: "dquote \<in> set (skeleton s) \<longleftrightarrow> dquote \<in> set s"
  by (auto simp: skeleton_def)

subsection \<open>The outermost-braces match\<close>

lemma filter_dropWhile_commute:
  assumes "\<And>x. \<not> Q x \<Longrightarrow> P x"
  shows "filter P (dropWhile Q xs) = dropWhile Q (filter P xs)"
  using assms by (induction xs) auto

lemma skeleton_dropWhile_brace:
  "skeleton (dropWhile (\<lambda>c. c \<noteq> CHR ''{'') x) = dropWhile (\<lambda>c. c \<noteq> CHR ''{'') (skeleton x)"
  "skeleton (dropWhile (\<lambda>c. c \<noteq> CHR ''}'') x) = dropWhile (\<lambda>c. c \<noteq> CHR ''}'') (skeleton x)"
  unfolding skeleton_def by (rule filter_dropWhile_commute, simp)+

lemma closing_skeleton: "CHR ''}'' \<in> set (skeleton x) \<longleftrightarrow> CHR ''}'' \<in> set x"
  by (auto simp: skeleton_def)

lemma matchOuterBraces_skeleton:
  "matchOuterBraces (skeleton x) = map_option skeleton (matchOuterBraces x)"
proof -
  let ?from = "dropWhile (\<lambda>c. c \<noteq> CHR ''{'') x"
  have a: "dropWhile (\<lambda>c. c \<noteq> CHR ''{'') (skeleton x) = skeleton ?from"
    by (simp add: skeleton_dropWhile_brace(1))
  have b: "skeleton (rev (dropWhile (\<lambda>c. c \<noteq> CHR ''}'') (rev ?from)))
             = rev (dropWhile (\<lambda>c. c \<noteq> CHR ''}'') (rev (skeleton ?from)))"
    by (simp add: skeleton_rev skeleton_dropWhile_brace(2))
  show ?thesis
    unfolding matchOuterBraces_def Let_def a by (simp add: closing_skeleton b)
qed

lemma quotesEscaped_from_brace:
  "quotesEscaped b x \<Longrightarrow> quotesEscaped b' (dropWhile (\<lambda>c. c \<noteq> CHR ''{'') x)"
  by (induction x arbitrary: b) auto

lemma quotesEscaped_prefix: "quotesEscaped b (xs @ ys) \<Longrightarrow> quotesEscaped b xs"
  by (induction xs arbitrary: b) auto

lemma matchOuterBraces_escaped:
  assumes "quotesEscaped b x" "matchOuterBraces x = Some r"
  shows "quotesEscaped False r"
proof -
  let ?from = "dropWhile (\<lambda>c. c \<noteq> CHR ''{'') x"
  from assms(2) have r: "r = rev (dropWhile (\<lambda>c. c \<noteq> CHR ''}'') (rev ?from))"
    by (simp add: matchOuterBraces_def Let_def split: if_splits)
  have "rev ?from = takeWhile (\<lambda>c. c \<noteq> CHR ''}'') (rev ?from)
                    @ dropWhile (\<lambda>c. c \<noteq> CHR ''}'') (rev ?from)"
    by simp
  then have "?from = r @ rev (takeWhile (\<lambda>c. c \<noteq> CHR ''}'') (rev ?from))"
    unfolding r by (metis rev_append rev_rev_ident)
  moreover have "quotesEscaped False ?from"
    using assms(1) by (rule quotesEscaped_from_brace)
  ultimately show ?thesis using quotesEscaped_prefix by metis
qed

lemma matchOuterBraces_braced:
  "matchOuterBraces (CHR ''{'' # body @ [CHR ''}'']) = Some (CHR ''{'' # body @ [CHR ''}''])"
  by (simp add: matchOuterBraces_def)

lemma extractJsonFromText_shape:
  assumes "extractJsonFromText t = Some s"
  shows "\<exists>body. s = CHR ''{'' # body @ [CHR ''}'']"
proof -
  from assms have ne: "t \<noteq> []"
    and st: "0 \<le> indexOf t ''{''" "indexOf t ''{'' < lastIndexOfEnd t ''}''"
    and s: "s = substring t (indexOf t ''{'') (lastIndexOfEnd t ''}'' + 1)"
    by (auto simp: extractJsonFromText_def Let_def split: if_splits)
  define i where "i = length (takeWhile (\<lambda>x. x \<noteq> CHR ''{'') t)"
  from st(1) have mem: "CHR ''{'' \<in> set t"
    by (auto simp: indexOf_def indexOfFrom_single split: if_splits)
  then have start: "indexOf t ''{'' = int i"
    by (simp add: indexOf_def indexOfFrom_single i_def)
  have "dropWhile (\<lambda>x. x \<noteq> CHR ''{'') t \<noteq> []"
    using mem by (simp add: dropWhile_eq_Nil_conv)
  moreover have "length (takeWhile (\<lambda>x. x \<noteq> CHR ''{'') t)
                 + length (dropWhile (\<lambda>x. x \<noteq> CHR ''{'') t) = length t"
    by (metis length_append takeWhile_dropWhile_id)
  ultimately have i_lt: "i < length t" unfolding i_def
    by (cases "dropWhile (\<lambda>x. x \<noteq> CHR ''{'') t") auto
  have ti: "t ! i = CHR ''{''"
    using nth_length_takeWhile [of "\<lambda>x. x \<noteq> CHR ''{''" t] i_lt unfolding i_def by simp
  from lastIndexDown_cases [of t "''}''" "length t"] st start
  obtain k where k: "k \<le> length t" "lastIndexDown t ''}'' (length t) = int k"
    "prefix ''}'' (drop k t)"
    by (auto simp: lastIndexOfEnd_def)
  then have kl: "k < length t" "t ! k = CHR ''}''" by (simp_all add: prefix_single_drop)
  from k st start have ik: "i < k" by (simp add: lastIndexOfEnd_def)
  have "nat (int k + 1) = Suc k" by simp
  then have sub: "s = take (Suc k - i) (drop i t)"
    using s start k(2) ik kl substring_take_drop [of "int i" "int k + 1" t]
    by (simp add: lastIndexOfEnd_def)
  have len: "length s = Suc k - i" using sub kl ik by simp
  have first: "s ! 0 = CHR ''{''" using sub ti ik i_lt by simp
  have lst: "s ! (k - i) = CHR ''}''" using sub kl ik by simp
  from len ik obtain body where "s = s ! 0 # body @ [s ! (k - i)]"
  proof -
    from len ik have l2: "2 \<le> length s" by simp
    then obtain a rest where ar: "s = a # rest" by (cases s) auto
    with l2 have "rest \<noteq> []" by auto
    then obtain body z where bz: "rest = body @ [z]" by (metis rev_exhaust)
    from ar bz len ik have "k - i = Suc (length body)" by simp
    with ar bz have "s ! (k - i) = z" by simp
    with ar bz that show ?thesis by simp
  qed
  with first lst show ?thesis by auto
qed

text \<open>
  Claim C10 (repair and double quotes). For an input with a double quote and no single
  quote, in which a double quote lies inside the stretch from the first \<open>{\<close> to the last
  \<open>}\<close> behind it whenever there is such a stretch, the cleaned text does not parse,
  neither does its outermost-braces match, and \<open>_attemptJsonFix\<close> returns \<open>null\<close>. Every
  candidate that \<open>_extractJsonFromText\<close> hands over is such an input as soon as it contains
  a double quote and no single quote.
\<close>

theorem repair_gives_up_on_double_quotes:
  "(dquote \<in> set s \<and> squote \<notin> set s
      \<and> (\<forall>region. matchOuterBraces s = Some region \<longrightarrow> dquote \<in> set region)
    \<longrightarrow> JSON_parse (cleanJson s) = None
        \<and> (\<forall>objectMatch. matchOuterBraces (cleanJson s) = Some objectMatch
              \<longrightarrow> JSON_parse objectMatch = None)
        \<and> attemptJsonFix s = JNull)
   \<and> (\<forall>response. extractJsonFromText response = Some s \<and> dquote \<in> set s \<and> squote \<notin> set s
         \<longrightarrow> attemptJsonFix s = JNull)"
proof -
  have main: "JSON_parse (cleanJson s) = None
        \<and> (\<forall>objectMatch. matchOuterBraces (cleanJson s) = Some objectMatch
              \<longrightarrow> JSON_parse objectMatch = None)
        \<and> attemptJsonFix s = JNull"
    if h: "dquote \<in> set s" "squote \<notin> set s"
      "\<forall>region. matchOuterBraces s = Some region \<longrightarrow> dquote \<in> set region"
    for s
  proof -
    have esc: "quotesEscaped False (cleanJson s)" using h(2) by (rule cleanJson_escaped(2))
    have sk: "skeleton (cleanJson s) = skeleton s" using h(2) by (rule skeleton_cleanJson)
    have "dquote \<in> set (cleanJson s)"
      using h(1) dquote_skeleton [of s] dquote_skeleton [of "cleanJson s"] sk by simp
    with esc have direct: "JSON_parse (cleanJson s) = None"
      by (rule JSON_parse_escaped_quote)
    have fallback: "JSON_parse objectMatch = None"
      if m: "matchOuterBraces (cleanJson s) = Some objectMatch" for objectMatch
    proof -
      have "map_option skeleton (matchOuterBraces s) = Some (skeleton objectMatch)"
        using matchOuterBraces_skeleton [of s] matchOuterBraces_skeleton [of "cleanJson s"] sk m
        by simp
      then obtain region where reg: "matchOuterBraces s = Some region"
        "skeleton region = skeleton objectMatch"
        by (cases "matchOuterBraces s") auto
      with h(3) have "dquote \<in> set region" by simp
      with reg(2) have "dquote \<in> set objectMatch"
        using dquote_skeleton [of region] dquote_skeleton [of objectMatch] by simp
      moreover have "quotesEscaped False objectMatch"
        using esc m by (rule matchOuterBraces_escaped)
      ultimately show ?thesis using JSON_parse_escaped_quote by simp
    qed
    have "attemptJsonFix s = JNull"
      using direct fallback
      by (auto simp: attemptJsonFix_def Let_def split: option.splits)
    with direct fallback show ?thesis by simp
  qed
  have extracted: "attemptJsonFix s = JNull"
    if e: "extractJsonFromText response = Some s \<and> dquote \<in> set s \<and> squote \<notin> set s"
    for response
  proof -
    from e extractJsonFromText_shape obtain body where "s = CHR ''{'' # body @ [CHR ''}'']"
      by blast
    then have "matchOuterBraces s = Some s" by (simp only: matchOuterBraces_braced)
    with e main [of s] show ?thesis by simp
  qed
  from main [of s] extracted show ?thesis by blast
qed

theorem repair_gives_up_on_double_quotes_witness:
  \<open>JSON_parse (cleanJson trailingComma) = None
   \<and> attemptJsonFix trailingComma = JNull
   \<and> extractJsonFromText (''Result: '' @ trailingComma @ '' done'') = Some trailingComma\<close>
proof -
  have q: "dquote \<in> set trailingComma" "squote \<notin> set trailingComma"
    by (simp_all add: trailingComma_def)
  have "matchOuterBraces trailingComma = Some trailingComma" by code_simp
  with q have r: "\<forall>region. matchOuterBraces trailingComma = Some region \<longrightarrow> dquote \<in> set region"
    by simp
  have e: "extractJsonFromText (''Result: '' @ trailingComma @ '' done'') = Some trailingComma"
    by code_simp
  note T = repair_gives_up_on_double_quotes [of trailingComma]
  from T [THEN conjunct1] q r
  have "JSON_parse (cleanJson trailingComma) = None \<and> attemptJsonFix trailingComma = JNull"
    by blast
  moreover from T [THEN conjunct2, rule_format, of "''Result: '' @ trailingComma @ '' done''"] e q
  have "attemptJsonFix trailingComma = JNull" by blast
  ultimately show ?thesis using e by blast
qed

text \<open>
  Two inputs with a double quote that the repair turns into an object: the quote is
  inside a single-quoted key, or it stands outside the braces.
\<close>

theorem repair_double_quote_counterexample:
  \<open>dquote \<in> set quoteInSingleQuotedKey
   \<and> attemptJsonFix quoteInSingleQuotedKey = JObj [(''a"b'', JNum 1 0)]
   \<and> dquote \<in> set quoteBeforeBraces
   \<and> attemptJsonFix quoteBeforeBraces = JObj []\<close>
proof (intro conjI)
  show "dquote \<in> set quoteInSingleQuotedKey" by (simp add: quoteInSingleQuotedKey_def)
  show \<open>attemptJsonFix quoteInSingleQuotedKey = JObj [(''a"b'', JNum 1 0)]\<close> by code_simp
  show "dquote \<in> set quoteBeforeBraces" by (simp add: quoteBeforeBraces_def)
  show "attemptJsonFix quoteBeforeBraces = JObj []" by code_simp
qed

end
